theory Spec2Isabelle
  imports
    Main
    "HOL-Library.Char_ord"
    "HOL-Library.List_Lexorder"
    "HOL-Library.AList"
begin

section \<open>Strings\<close>

text \<open>
  A Python \<^verbatim>\<open>str\<close> is a sequence of code points. A \<^typ>\<open>char\<close> stands for one code point
  below 256 (Latin-1, which holds the Spanish alphabet of the thesaurus); \<^typ>\<open>string\<close> is
  ordered lexicographically by code point, as Python orders \<^verbatim>\<open>str\<close>.
\<close>

definition is_space :: "char \<Rightarrow> bool" where
  \<comment> \<open>\<^verbatim>\<open>str.isspace\<close> on one code point below 256\<close>
  "is_space c = ((of_char c :: nat) \<in> {9, 10, 11, 12, 13, 28, 29, 30, 31, 32, 133, 160})"

definition strip :: "string \<Rightarrow> string" where
  \<comment> \<open>\<^verbatim>\<open>str.strip()\<close>\<close>
  "strip s = rev (dropWhile is_space (rev (dropWhile is_space s)))"

definition lower_char :: "char \<Rightarrow> char" where
  "lower_char c =
     (let n = (of_char c :: nat)
      in if (65 \<le> n \<and> n \<le> 90) \<or> (192 \<le> n \<and> n \<le> 222 \<and> n \<noteq> 215)
         then char_of (n + 32) else c)"

definition lower :: "string \<Rightarrow> string" where
  \<comment> \<open>\<^verbatim>\<open>str.lower()\<close>\<close>
  "lower s = map lower_char s"

definition is_digit :: "char \<Rightarrow> bool" where
  \<comment> \<open>the regular expression class \<^verbatim>\<open>\d\<close>\<close>
  "is_digit c = ((of_char c :: nat) \<in> {48..57})"

definition dquote :: char where
  "dquote = CHR 0x22"

fun join :: "string \<Rightarrow> string list \<Rightarrow> string" where
  \<comment> \<open>\<^verbatim>\<open>sep.join(xs)\<close>\<close>
  "join sep [] = []"
| "join sep [x] = x"
| "join sep (x # y # zs) = x @ sep @ join sep (y # zs)"

section \<open>generar\_lista\_id.py\<close>

definition normalize_term :: "string \<Rightarrow> string" where
  "normalize_term term = strip term"

definition normalized_set :: "string list \<Rightarrow> string set" where
  \<comment> \<open>\<^verbatim>\<open>set(normalize_term(t) for t in terms if normalize_term(t))\<close>\<close>
  "normalized_set terms = set [normalize_term t. t \<leftarrow> terms, normalize_term t \<noteq> []]"

text \<open>
  The scan of lines 130--134 and 146--150: the first concept that shares a term with
  \<open>normalized\<close> receives the union and the scan stops. The flag is \<^verbatim>\<open>merged\<close>.
\<close>

fun scan_concepts :: "string set \<Rightarrow> string set list \<Rightarrow> string set list \<times> bool" where
  "scan_concepts normalized [] = ([], False)"
| "scan_concepts normalized (existing_concept # concepts) =
     (if normalized \<inter> existing_concept \<noteq> {}
      then ((existing_concept \<union> normalized) # concepts, True)
      else (case scan_concepts normalized concepts of
              (concepts', merged) \<Rightarrow> (existing_concept # concepts', merged)))"

definition add_canonical :: "string set \<Rightarrow> string set list \<Rightarrow> string set list" where
  \<comment> \<open>lines 121--122\<close>
  "add_canonical normalized concepts =
     (if normalized \<noteq> {} then concepts @ [normalized] else concepts)"

definition add_mergeable :: "string set \<Rightarrow> string set list \<Rightarrow> string set list" where
  \<comment> \<open>lines 127--137 and 143--153\<close>
  "add_mergeable normalized concepts =
     (if normalized \<noteq> {}
      then (case scan_concepts normalized concepts of
              (concepts', merged) \<Rightarrow> if \<not> merged then concepts' @ [normalized] else concepts')
      else concepts)"

text \<open>
  \<^verbatim>\<open>siglas_json\<close> is a dictionary; the model takes its items in insertion order. The
  keys of a dictionary are distinct; the three passes do not depend on that. A dictionary
  that the program builds is an association list, and \<^verbatim>\<open>d[k] = v\<close> is
  \<^const>\<open>AList.update\<close>: the value of an old key is replaced in place, a new key goes to
  the end.
\<close>

definition paso1 :: "(string \<times> string list) list \<Rightarrow> string set list \<Rightarrow> string set list" where
  "paso1 siglas_json concepts =
     fold (\<lambda>(sigla, expansiones). add_canonical (normalized_set (sigla # expansiones)))
       siglas_json concepts"

definition paso2 :: "string list list \<Rightarrow> string set list \<Rightarrow> string set list" where
  "paso2 sinonimos concepts =
     fold (\<lambda>synonym_list. add_mergeable (normalized_set synonym_list)) sinonimos concepts"

definition paso3 :: "(string \<times> string) list \<Rightarrow> string set list \<Rightarrow> string set list" where
  "paso3 siglas_csv concepts =
     fold (\<lambda>(sigla, expansion). add_mergeable (normalized_set [sigla, expansion]))
       siglas_csv concepts"

definition cluster ::
  "string list list \<Rightarrow> (string \<times> string list) list \<Rightarrow> (string \<times> string) list \<Rightarrow> string set list"
where
  \<comment> \<open>lines 114--153: the list \<^verbatim>\<open>concepts\<close> when the three passes are over\<close>
  "cluster sinonimos siglas_json siglas_csv = paso3 siglas_csv (paso2 sinonimos (paso1 siglas_json []))"

text \<open>
  \<^verbatim>\<open>re.sub(r'-\d+$', '', term)\<close>. The pattern matches a hyphen and one or more digits that
  reach the end of the string, or the line feed that ends the string.
\<close>

definition cut_suffix :: "string \<Rightarrow> string option" where
  "cut_suffix term =
     (let ds = takeWhile is_digit (rev term); rest = dropWhile is_digit (rev term)
      in case rest of
           [] \<Rightarrow> None
         | c # p \<Rightarrow> if ds \<noteq> [] \<and> c = CHR ''-'' then Some (rev p) else None)"

definition strip_suffix :: "string \<Rightarrow> string" where
  "strip_suffix term =
     (case cut_suffix term of
        Some p \<Rightarrow> p
      | None \<Rightarrow>
          if term \<noteq> [] \<and> last term = CHR 0x0A
          then (case cut_suffix (butlast term) of Some p \<Rightarrow> p @ [CHR 0x0A] | None \<Rightarrow> term)
          else term)"

function str_nat :: "nat \<Rightarrow> string" where
  \<comment> \<open>the decimal digits of a number\<close>
  "str_nat n =
     (if n < 10 then [char_of (48 + n)] else str_nat (n div 10) @ [char_of (48 + n mod 10)])"
  by pat_completeness auto
termination
  by (relation "measure (\<lambda>n. n)") auto

declare str_nat.simps [simp del]

definition concept_id :: "nat \<Rightarrow> string" where
  \<comment> \<open>\<^verbatim>\<open>f"C{idx:04d}"\<close>\<close>
  "concept_id idx =
     CHR ''C'' # replicate (4 - length (str_nat idx)) CHR ''0'' @ str_nat idx"

text \<open>
  A Python \<^verbatim>\<open>set\<close> is iterated in an order the program does not control, and two
  sets with the same members need not be iterated in the same order. \<open>order idx\<close> gives
  the order in which the set \<^verbatim>\<open>cleaned_terms\<close> of the concept with index \<open>idx\<close> is iterated;
  \<open>set_order\<close> says that each of these orders lists each member once.
\<close>

definition set_order :: "(nat \<Rightarrow> string set \<Rightarrow> string list) \<Rightarrow> bool" where
  "set_order order =
     (\<forall>idx S. finite S \<longrightarrow> set (order idx S) = S \<and> distinct (order idx S))"

definition terms_list :: "(string set \<Rightarrow> string list) \<Rightarrow> string set \<Rightarrow> string list" where
  \<comment> \<open>lines 160--168\<close>
  "terms_list order term_set =
     (let cleaned_terms = strip_suffix ` term_set
      in sort_key lower (order cleaned_terms))"

definition make_map ::
  "(nat \<Rightarrow> string set \<Rightarrow> string list) \<Rightarrow> string set list \<Rightarrow> (string \<times> string list) list"
where
  \<comment> \<open>lines 156--169; the dictionary keeps its keys in insertion order\<close>
  "make_map order concepts =
     fold (\<lambda>(idx, term_set). AList.update (concept_id idx) (terms_list (order idx) term_set))
       (zip [1 ..< Suc (length concepts)] concepts) []"

definition build_concept_map ::
  "(nat \<Rightarrow> string set \<Rightarrow> string list) \<Rightarrow> string list list \<Rightarrow> (string \<times> string list) list \<Rightarrow>
   (string \<times> string) list \<Rightarrow> (string \<times> string list) list"
where
  "build_concept_map order sinonimos siglas_json siglas_csv =
     make_map order (cluster sinonimos siglas_json siglas_csv)"

section \<open>generar\_indice\_invertido.py\<close>

text \<open>
  \<^verbatim>\<open>synonyms\<close> is the dictionary of the Concept Map, taken as the list of its items;
  \<^verbatim>\<open>term_to_concepts\<close> is a \<^verbatim>\<open>defaultdict(set)\<close>.
\<close>

record index_entry =
  concept_ids :: "string list"
  is_ambiguous :: bool

definition lookup_default :: "(string \<times> string set) list \<Rightarrow> string \<Rightarrow> string set" where
  \<comment> \<open>reading a \<^verbatim>\<open>defaultdict(set)\<close>\<close>
  "lookup_default term_to_concepts term =
     (case map_of term_to_concepts term of None \<Rightarrow> {} | Some s \<Rightarrow> s)"

definition add_term ::
  "string \<Rightarrow> string \<Rightarrow> (string \<times> string set) list \<Rightarrow> (string \<times> string set) list"
where
  \<comment> \<open>lines 53--55\<close>
  "add_term cid term term_to_concepts =
     (let term_normalized = strip term
      in if term_normalized \<noteq> []
         then AList.update term_normalized
                (insert cid (lookup_default term_to_concepts term_normalized))
                term_to_concepts
         else term_to_concepts)"

definition build_term_to_concepts ::
  "(string \<times> string list) list \<Rightarrow> (string \<times> string set) list"
where
  \<comment> \<open>lines 48--55\<close>
  "build_term_to_concepts synonyms =
     fold (\<lambda>(cid, terms). fold (add_term cid) terms) synonyms []"

definition make_entry :: "string set \<Rightarrow> index_entry" where
  \<comment> \<open>lines 61--65\<close>
  "make_entry ids =
     (let concept_list = sorted_list_of_set ids
      in \<lparr>concept_ids = concept_list, is_ambiguous = (length concept_list > 1)\<rparr>)"

definition build_inverted_index ::
  "(string \<times> string list) list \<Rightarrow> (string \<times> index_entry) list"
where
  \<comment> \<open>lines 58--67; the items are sorted by their key, the keys being distinct\<close>
  "build_inverted_index synonyms =
     fold (\<lambda>(term, ids). AList.update term (make_entry ids))
       (sort_key fst (build_term_to_concepts synonyms)) []"

section \<open>ejemplo\_busqueda.py\<close>

text \<open>
  The two dictionaries of \<^verbatim>\<open>SynonymExpander\<close> are only read, so they are maps. The
  fields \<^verbatim>\<open>is_ambiguous\<close> and \<^verbatim>\<open>concept_ids\<close> of the result are \<open>ambiguous\<close> and
  \<open>ids\<close> here, the names being taken by the index entry.
\<close>

record expansion =
  original :: string
  found :: bool
  ambiguous :: bool
  ids :: "string list"
  expanded_terms :: "string set"
  query :: string

definition quote_term :: "string \<Rightarrow> string" where
  \<comment> \<open>\<^verbatim>\<open>f'"{t}"' if ' ' in t else t\<close>\<close>
  "quote_term t = (if CHR '' '' \<in> set t then dquote # t @ [dquote] else t)"

definition collect_synonyms :: "(string \<rightharpoonup> string list) \<Rightarrow> string list \<Rightarrow> string set" where
  \<comment> \<open>lines 82--86\<close>
  "collect_synonyms synonyms cids =
     fold (\<lambda>cid all_synonyms.
             case synonyms cid of Some ts \<Rightarrow> all_synonyms \<union> set ts | None \<Rightarrow> all_synonyms)
       cids {}"

definition expand_term ::
  "(string \<rightharpoonup> string list) \<Rightarrow> (string \<rightharpoonup> index_entry) \<Rightarrow> string \<Rightarrow> expansion"
where
  \<comment> \<open>lines 59--96\<close>
  "expand_term synonyms inverted_index term =
     (case inverted_index term of
        None \<Rightarrow>
          \<lparr>original = term, found = False, ambiguous = False, ids = [],
           expanded_terms = {term}, query = dquote # term @ [dquote]\<rparr>
      | Some index_data \<Rightarrow>
          (let all_synonyms = collect_synonyms synonyms (concept_ids index_data)
           in \<lparr>original = term, found = True, ambiguous = is_ambiguous index_data,
               ids = concept_ids index_data, expanded_terms = all_synonyms,
               query = (if card all_synonyms > 0
                        then ''('' @ join '' OR '' (map quote_term (sorted_list_of_set all_synonyms)) @ '')''
                        else term)\<rparr>))"

definition expand_query ::
  "(string \<rightharpoonup> string list) \<Rightarrow> (string \<rightharpoonup> index_entry) \<Rightarrow> string \<Rightarrow> expansion"
where
  \<comment> \<open>line 110\<close>
  "expand_query synonyms inverted_index query_text =
     expand_term synonyms inverted_index (strip query_text)"

section \<open>Auxiliary definitions\<close>

text \<open>Reading a decimal numeral back; used to show that concept identifiers are distinct.\<close>

fun digits_value :: "string \<Rightarrow> nat \<Rightarrow> nat" where
  "digits_value [] acc = acc"
| "digits_value (c # cs) acc = digits_value cs (10 * acc + (of_char c - 48))"

text \<open>The normalized term sets of the raw groups, in the order in which the passes take them.\<close>

definition mergeable_sets :: "string list list \<Rightarrow> (string \<times> string) list \<Rightarrow> string set list" where
  "mergeable_sets sinonimos siglas_csv =
     map normalized_set sinonimos @
     map (\<lambda>(sigla, expansion). normalized_set [sigla, expansion]) siglas_csv"

definition canonical_sets :: "(string \<times> string list) list \<Rightarrow> string set list" where
  "canonical_sets siglas_json =
     map (\<lambda>(sigla, expansiones). normalized_set (sigla # expansiones)) siglas_json"

section \<open>Predicates of the properties\<close>

definition disjoint_map :: "(string \<times> string list) list \<Rightarrow> bool" where
  \<comment> \<open>no term belongs to the member lists of two concept identifiers\<close>
  "disjoint_map concept_map =
     (\<forall>(c1, ts1) \<in> set concept_map. \<forall>(c2, ts2) \<in> set concept_map.
        c1 \<noteq> c2 \<longrightarrow> set ts1 \<inter> set ts2 = {})"

definition disjoint_list :: "string set list \<Rightarrow> bool" where
  \<comment> \<open>the concepts at two different positions share no term\<close>
  "disjoint_list cs =
     (\<forall>i \<in> {..<length cs}. \<forall>j \<in> {..<length cs}. i \<noteq> j \<longrightarrow> cs ! i \<inter> cs ! j = {})"

text \<open>
  Every group of the list, at the moment it is folded in, shares a term with at most one
  of the concepts that exist then.
\<close>

fun single_hits :: "string set list \<Rightarrow> string set list \<Rightarrow> bool" where
  "single_hits cs [] = True"
| "single_hits cs (S # Ss) =
     (length (filter (\<lambda>c. S \<inter> c \<noteq> {}) cs) \<le> 1 \<and> single_hits (add_mergeable S cs) Ss)"

definition ids_of :: "(string \<times> string list) list \<Rightarrow> string \<Rightarrow> string set" where
  \<comment> \<open>the identifiers of the concepts with a member whose stripped form is the term\<close>
  "ids_of synonyms term = set [c. (c, ts) \<leftarrow> synonyms, term \<in> strip ` set ts]"

definition union_of :: "(string \<rightharpoonup> string list) \<Rightarrow> string list \<Rightarrow> string set" where
  \<comment> \<open>the members of the listed concepts that the Concept Map has\<close>
  "union_of synonyms cids = (\<Union>cid \<in> set cids. case synonyms cid of Some ts \<Rightarrow> set ts | None \<Rightarrow> {})"

section \<open>Properties of the string operations and of the scan\<close>

lemma strip_ends:
  assumes "strip s \<noteq> []"
  shows "\<not> is_space (hd (strip s))" and "\<not> is_space (last (strip s))"
proof -
  let ?d = "dropWhile is_space"
  let ?r = "?d (rev (?d s))"
  from assms have r: "?r \<noteq> []" by (simp add: strip_def)
  have ds: "?d s \<noteq> []"
  proof
    assume "?d s = []"
    then have "?r = []" by (simp only: rev.simps dropWhile.simps)
    with r show False by (simp only: not_True_eq_False)
  qed
  have "\<not> is_space (hd ?r)" using r by (rule hd_dropWhile)
  then show "\<not> is_space (last (strip s))" using r by (simp add: strip_def last_rev)
  have "rev (?d s) = takeWhile is_space (rev (?d s)) @ ?r" by simp
  then have "last (rev (?d s)) = last ?r" using r by (metis last_appendR)
  then have "last ?r = hd (?d s)" using ds by (simp add: last_rev)
  moreover have "\<not> is_space (hd (?d s))" using ds by (rule hd_dropWhile)
  ultimately show "\<not> is_space (hd (strip s))" using r by (simp add: strip_def hd_rev)
qed

lemma strip_self:
  assumes "s = [] \<or> (\<not> is_space (hd s) \<and> \<not> is_space (last s))"
  shows "strip s = s"
proof (cases "s = []")
  case True then show ?thesis by (simp add: strip_def)
next
  case False
  with assms have h: "\<not> is_space (hd s)" and l: "\<not> is_space (last s)" by auto
  have 1: "dropWhile is_space s = s" using h by (simp add: dropWhile_eq_self_iff)
  have "hd (rev s) = last s" using False by (simp add: hd_rev)
  then have 2: "dropWhile is_space (rev s) = rev s" using l by (simp add: dropWhile_eq_self_iff)
  show ?thesis by (simp add: strip_def 1 2)
qed

lemma strip_idem: "strip (strip s) = strip s"
  using strip_ends [of s] by (intro strip_self) blast

lemma strip_eq_self_iff:
  "strip s = s \<longleftrightarrow> s = [] \<or> (\<not> is_space (hd s) \<and> \<not> is_space (last s))"
  using strip_self [of s] strip_ends [of s] by auto

lemma finite_normalized_set: "finite (normalized_set terms)"
  by (simp add: normalized_set_def)



lemma normalized_set_empty_iff:
  "normalized_set terms = {} \<longleftrightarrow> (\<forall>t \<in> set terms. normalize_term t = [])"
  by (auto simp: normalized_set_def filter_empty_conv)

lemma length_scan_concepts: "length (fst (scan_concepts S cs)) = length cs"
  by (induction cs) (auto split: prod.splits)

lemma snd_scan_concepts: "snd (scan_concepts S cs) \<longleftrightarrow> (\<exists>c \<in> set cs. S \<inter> c \<noteq> {})"
  by (induction cs) (auto split: prod.splits)

lemma scan_concepts_miss:
  "\<forall>c \<in> set cs. S \<inter> c = {} \<Longrightarrow> scan_concepts S cs = (cs, False)"
  by (induction cs) auto

lemma scan_concepts_hit:
  "i < length cs \<Longrightarrow> S \<inter> cs ! i \<noteq> {} \<Longrightarrow> \<forall>j<i. S \<inter> cs ! j = {} \<Longrightarrow>
   scan_concepts S cs = (cs[i := cs ! i \<union> S], True)"
proof (induction cs arbitrary: i)
  case Nil then show ?case by simp
next
  case (Cons c cs)
  show ?case
  proof (cases i)
    case 0 with Cons.prems show ?thesis by simp
  next
    case (Suc k)
    from Cons.prems(3) Suc have "S \<inter> (c # cs) ! 0 = {}" by blast
    then have "S \<inter> c = {}" by simp
    moreover have "\<forall>j<k. S \<inter> cs ! j = {}"
    proof (intro allI impI)
      fix j assume "j < k"
      then have "Suc j < i" using Suc by simp
      with Cons.prems(3) have "S \<inter> (c # cs) ! Suc j = {}" by blast
      then show "S \<inter> cs ! j = {}" by simp
    qed
    moreover have "k < length cs" and "S \<inter> cs ! k \<noteq> {}"
      using Cons.prems(1,2) Suc by simp_all
    ultimately have "S \<inter> c = {}" and "scan_concepts S cs = (cs[k := cs ! k \<union> S], True)"
      by (simp_all add: Cons.IH)
    then show ?thesis using Suc by simp
  qed
qed

lemma paso1_append:
  "paso1 siglas_json concepts =
     concepts @ filter (\<lambda>S. S \<noteq> {}) (map (\<lambda>(sigla, expansiones). normalized_set (sigla # expansiones)) siglas_json)"
  unfolding paso1_def
proof (induction siglas_json arbitrary: concepts)
  case Nil
  show ?case by simp
next
  case (Cons entry siglas_json)
  obtain sigla expansiones where entry: "entry = (sigla, expansiones)" by (cases entry)
  let ?F = "\<lambda>(sigla, expansiones). add_canonical (normalized_set (sigla # expansiones))"
  let ?S = "normalized_set (sigla # expansiones)"
  have "fold ?F siglas_json (add_canonical ?S concepts) =
      add_canonical ?S concepts @
      filter (\<lambda>S. S \<noteq> {}) (map (\<lambda>(sigla, expansiones). normalized_set (sigla # expansiones)) siglas_json)"
    by (rule Cons.IH)
  moreover have "add_canonical ?S concepts = concepts @ (if ?S = {} then [] else [?S])"
    by (simp add: add_canonical_def)
  ultimately show ?case by (simp add: entry)
qed

section \<open>Concept identifiers and the construction of the map\<close>

lemma digits_value_append:
  "digits_value (xs @ ys) acc = digits_value ys (digits_value xs acc)"
  by (induction xs arbitrary: acc) auto

lemma digits_value_zeros: "digits_value (replicate k CHR ''0'') 0 = 0"
  by (induction k) auto

lemma of_char_digit: "d < 10 \<Longrightarrow> (of_char (char_of (48 + d) :: char) :: nat) = 48 + d"
  by (simp add: of_char_of)

lemma digits_value_str_nat: "digits_value (str_nat n) 0 = n"
proof (induction n rule: str_nat.induct)
  case (1 n)
  show ?case
  proof (cases "n < 10")
    case True
    then show ?thesis by (subst str_nat.simps) (simp add: of_char_digit)
  next
    case False
    then have "digits_value (str_nat (n div 10)) 0 = n div 10" using 1 by simp
    then show ?thesis using False
      by (subst str_nat.simps) (simp add: digits_value_append of_char_digit)
  qed
qed

lemma concept_id_inj: "concept_id i = concept_id j \<Longrightarrow> i = j"
proof -
  have "digits_value (tl (concept_id k)) 0 = k" for k
    by (simp add: concept_id_def digits_value_append digits_value_zeros digits_value_str_nat)
  then show "concept_id i = concept_id j \<Longrightarrow> i = j" by metis
qed

lemma update_fresh: "k \<notin> fst ` set al \<Longrightarrow> AList.update k v al = al @ [(k, v)]"
  by (induction al) auto

lemma fold_update_fresh:
  "distinct (map f xs) \<Longrightarrow> f ` set xs \<inter> fst ` set acc = {} \<Longrightarrow>
   fold (\<lambda>x. AList.update (f x) (g x)) xs acc = acc @ map (\<lambda>x. (f x, g x)) xs"
proof (induction xs arbitrary: acc)
  case Nil then show ?case by simp
next
  case (Cons x xs)
  have "AList.update (f x) (g x) acc = acc @ [(f x, g x)]"
    using Cons.prems by (intro update_fresh) auto
  moreover have "fold (\<lambda>x. AList.update (f x) (g x)) xs (acc @ [(f x, g x)])
      = (acc @ [(f x, g x)]) @ map (\<lambda>x. (f x, g x)) xs"
    using Cons.prems by (intro Cons.IH) auto
  ultimately show ?case by simp
qed

lemma make_map_eq:
  "make_map order concepts =
     map (\<lambda>(idx, term_set). (concept_id idx, terms_list (order idx) term_set))
       (zip [1 ..< Suc (length concepts)] concepts)"
proof -
  let ?xs = "zip [1 ..< Suc (length concepts)] concepts"
  have "distinct (map fst ?xs)" by (simp add: map_fst_zip del: upt_Suc)
  then have "distinct (map (\<lambda>x. concept_id (fst x)) ?xs)"
    by (simp add: distinct_map inj_on_def concept_id_inj flip: map_map) 
  then have "fold (\<lambda>x. AList.update (concept_id (fst x)) (terms_list (order (fst x)) (snd x))) ?xs []
      = [] @ map (\<lambda>x. (concept_id (fst x), terms_list (order (fst x)) (snd x))) ?xs"
    by (intro fold_update_fresh) auto
  then show ?thesis by (simp add: make_map_def case_prod_unfold)
qed

lemma make_map_keys:
  "map fst (make_map order concepts) = map concept_id [1 ..< Suc (length concepts)]"
proof -
  let ?xs = "zip [1 ..< Suc (length concepts)] concepts"
  have "map fst (make_map order concepts) = map (concept_id \<circ> fst) ?xs"
    by (simp add: make_map_eq case_prod_unfold o_def del: upt_Suc)
  also have "\<dots> = map concept_id (map fst ?xs)"
    by (simp only: map_map)
  also have "map fst ?xs = [1 ..< Suc (length concepts)]"
    by (rule map_fst_zip) (simp del: upt_Suc)
  finally show ?thesis .
qed

lemma make_map_nth:
  "i < length concepts \<Longrightarrow>
   make_map order concepts ! i = (concept_id (Suc i), terms_list (order (Suc i)) (concepts ! i))"
  by (simp add: make_map_eq del: upt_Suc)

lemma length_make_map: "length (make_map order concepts) = length concepts"
  by (simp add: make_map_eq del: upt_Suc)

lemma set_terms_list:
  "set_order order \<Longrightarrow> finite term_set \<Longrightarrow>
   set (terms_list (order idx) term_set) = strip_suffix ` term_set"
  by (simp add: terms_list_def set_order_def)



section \<open>The merge step\<close>

lemma add_canonical_empty: "add_canonical {} concepts = concepts"
  by (simp add: add_canonical_def)

lemma add_mergeable_empty: "add_mergeable {} concepts = concepts"
  by (simp add: add_mergeable_def)

lemma add_mergeable_miss:
  "S \<noteq> {} \<Longrightarrow> \<forall>c \<in> set cs. S \<inter> c = {} \<Longrightarrow> add_mergeable S cs = cs @ [S]"
  by (simp add: add_mergeable_def scan_concepts_miss)

lemma add_mergeable_hit:
  "S \<noteq> {} \<Longrightarrow> i < length cs \<Longrightarrow> S \<inter> cs ! i \<noteq> {} \<Longrightarrow> \<forall>j<i. S \<inter> cs ! j = {} \<Longrightarrow>
   add_mergeable S cs = cs[i := cs ! i \<union> S]"
  by (simp add: add_mergeable_def scan_concepts_hit)

text \<open>Every scan either misses all concepts or has a first concept that it hits.\<close>

lemma first_hit:
  assumes "\<exists>c \<in> set cs. S \<inter> c \<noteq> {}"
  obtains i where "i < length cs" and "S \<inter> cs ! i \<noteq> {}" and "\<forall>j<i. S \<inter> cs ! j = {}"
proof -
  let ?P = "\<lambda>i. i < length cs \<and> S \<inter> cs ! i \<noteq> {}"
  from assms have "\<exists>i. ?P i" by (metis in_set_conv_nth)
  then have "?P (LEAST i. ?P i)" by (rule LeastI_ex)
  moreover have "\<forall>j < (LEAST i. ?P i). S \<inter> cs ! j = {}"
  proof (intro allI impI)
    fix j assume j: "j < (LEAST i. ?P i)"
    then have "\<not> ?P j" by (rule not_less_Least)
    moreover have "j < length cs" using j \<open>?P (LEAST i. ?P i)\<close> by simp
    ultimately show "S \<inter> cs ! j = {}" by simp
  qed
  ultimately show thesis using that by blast
qed

lemma add_mergeable_grows:
  "length cs \<le> length (add_mergeable S cs) \<and> (\<forall>i<length cs. cs ! i \<subseteq> add_mergeable S cs ! i)"
proof (cases "S = {}")
  case True then show ?thesis by (simp add: add_mergeable_empty)
next
  case ne: False
  show ?thesis
  proof (cases "\<exists>c \<in> set cs. S \<inter> c \<noteq> {}")
    case True
    then obtain i where "i < length cs" "S \<inter> cs ! i \<noteq> {}" "\<forall>j<i. S \<inter> cs ! j = {}"
      by (rule first_hit)
    then have eq: "add_mergeable S cs = cs[i := cs ! i \<union> S]"
      using ne by (simp add: add_mergeable_hit)
    have "cs ! k \<subseteq> cs[i := cs ! i \<union> S] ! k" if "k < length cs" for k
      using that by (cases "k = i") simp_all
    then show ?thesis by (simp add: eq)
  next
    case False
    then have "add_mergeable S cs = cs @ [S]" using ne by (simp add: add_mergeable_miss)
    then show ?thesis by (simp add: nth_append)
  qed
qed

lemma fold_add_mergeable_grows:
  "length cs \<le> length (fold add_mergeable Ss cs) \<and>
   (\<forall>i<length cs. cs ! i \<subseteq> fold add_mergeable Ss cs ! i)"
proof (induction Ss arbitrary: cs)
  case Nil then show ?case by simp
next
  case (Cons S Ss)
  have a: "length cs \<le> length (add_mergeable S cs)"
    and b: "\<forall>i<length cs. cs ! i \<subseteq> add_mergeable S cs ! i"
    using add_mergeable_grows [of cs S] by simp_all
  have c: "length (add_mergeable S cs) \<le> length (fold add_mergeable Ss (add_mergeable S cs))"
    and d: "\<forall>i<length (add_mergeable S cs).
          add_mergeable S cs ! i \<subseteq> fold add_mergeable Ss (add_mergeable S cs) ! i"
    using Cons.IH [of "add_mergeable S cs"] by simp_all
  show ?case
  proof (intro conjI allI impI)
    show "length cs \<le> length (fold add_mergeable (S # Ss) cs)" using a c by simp
  next
    fix i assume i: "i < length cs"
    then have "cs ! i \<subseteq> add_mergeable S cs ! i" using b by simp
    moreover have "add_mergeable S cs ! i \<subseteq> fold add_mergeable Ss (add_mergeable S cs) ! i"
      using d i a by simp
    ultimately show "cs ! i \<subseteq> fold add_mergeable (S # Ss) cs ! i" by simp
  qed
qed

lemma paso2_fold: "paso2 sinonimos cs = fold add_mergeable (map normalized_set sinonimos) cs"
  by (simp add: paso2_def fold_map o_def)

lemma paso3_fold:
  "paso3 siglas_csv cs =
   fold add_mergeable (map (\<lambda>(sigla, expansion). normalized_set [sigla, expansion]) siglas_csv) cs"
  by (simp add: paso3_def fold_map o_def case_prod_unfold)

lemma cluster_fold:
  "cluster sinonimos siglas_json siglas_csv =
     fold add_mergeable (mergeable_sets sinonimos siglas_csv)
       (filter (\<lambda>S. S \<noteq> {}) (canonical_sets siglas_json))"
  by (simp add: cluster_def paso2_fold paso3_fold paso1_append mergeable_sets_def canonical_sets_def)

section \<open>Empty groups\<close>

lemma fold_add_mergeable_skip:
  "fold add_mergeable (xs @ {} # ys) cs = fold add_mergeable (xs @ ys) cs"
  by (simp add: add_mergeable_empty)

lemma cluster_drop_canonical:
  assumes "normalized_set (sigla # expansiones) = {}"
  shows "cluster sinonimos (js1 @ (sigla, expansiones) # js2) siglas_csv =
         cluster sinonimos (js1 @ js2) siglas_csv"
  using assms by (simp add: cluster_fold canonical_sets_def)

lemma cluster_drop_sinonimos:
  assumes "normalized_set synonym_list = {}"
  shows "cluster (s1 @ synonym_list # s2) siglas_json siglas_csv =
         cluster (s1 @ s2) siglas_json siglas_csv"
  using assms by (simp add: cluster_fold mergeable_sets_def add_mergeable_empty)

lemma cluster_drop_csv:
  assumes "normalized_set [sigla, expansion] = {}"
  shows "cluster sinonimos siglas_json (c1 @ (sigla, expansion) # c2) =
         cluster sinonimos siglas_json (c1 @ c2)"
  using assms by (simp add: cluster_fold mergeable_sets_def add_mergeable_empty)

lemma build_concept_map_keys:
  "map fst (build_concept_map order sinonimos siglas_json siglas_csv) =
   map concept_id [1 ..< Suc (length (build_concept_map order sinonimos siglas_json siglas_csv))]"
  by (simp only: build_concept_map_def make_map_keys length_make_map)

text \<open>
  C5. A raw group whose terms all normalize to the empty string leaves no trace: the
  Concept Map is the one of the input without that group, whichever of the three sources
  the group comes from, and the identifiers of every Concept Map are
  \<open>concept_id 1\<close>, \<open>concept_id 2\<close>, ... without a gap. The functions are total, so no
  error arises.
\<close>

theorem empty_group_dropped:
  "((\<forall>t \<in> set (sigla # expansiones). normalize_term t = []) \<longrightarrow>
      build_concept_map order sinonimos (js1 @ (sigla, expansiones) # js2) siglas_csv =
      build_concept_map order sinonimos (js1 @ js2) siglas_csv) \<and>
   ((\<forall>t \<in> set synonym_list. normalize_term t = []) \<longrightarrow>
      build_concept_map order (s1 @ synonym_list # s2) siglas_json siglas_csv =
      build_concept_map order (s1 @ s2) siglas_json siglas_csv) \<and>
   ((\<forall>t \<in> set [sigla', expansion]. normalize_term t = []) \<longrightarrow>
      build_concept_map order sinonimos siglas_json (c1 @ (sigla', expansion) # c2) =
      build_concept_map order sinonimos siglas_json (c1 @ c2)) \<and>
   map fst (build_concept_map order sinonimos siglas_json siglas_csv) =
     map concept_id [1 ..< Suc (length (build_concept_map order sinonimos siglas_json siglas_csv))]"
proof (intro conjI impI)
  assume "\<forall>t \<in> set (sigla # expansiones). normalize_term t = []"
  then have "normalized_set (sigla # expansiones) = {}" by (simp only: normalized_set_empty_iff)
  then show "build_concept_map order sinonimos (js1 @ (sigla, expansiones) # js2) siglas_csv =
      build_concept_map order sinonimos (js1 @ js2) siglas_csv"
    by (simp only: build_concept_map_def cluster_drop_canonical)
next
  assume "\<forall>t \<in> set synonym_list. normalize_term t = []"
  then have "normalized_set synonym_list = {}" by (simp only: normalized_set_empty_iff)
  then show "build_concept_map order (s1 @ synonym_list # s2) siglas_json siglas_csv =
      build_concept_map order (s1 @ s2) siglas_json siglas_csv"
    by (simp only: build_concept_map_def cluster_drop_sinonimos)
next
  assume "\<forall>t \<in> set [sigla', expansion]. normalize_term t = []"
  then have "normalized_set [sigla', expansion] = {}" by (simp only: normalized_set_empty_iff)
  then show "build_concept_map order sinonimos siglas_json (c1 @ (sigla', expansion) # c2) =
      build_concept_map order sinonimos siglas_json (c1 @ c2)"
    by (simp only: build_concept_map_def cluster_drop_csv)
next
  show "map fst (build_concept_map order sinonimos siglas_json siglas_csv) =
     map concept_id [1 ..< Suc (length (build_concept_map order sinonimos siglas_json siglas_csv))]"
    by (rule build_concept_map_keys)
qed

lemma normalize_blank: "normalize_term '' '' = []" "normalize_term [] = []" "normalize_term [CHR 0x09] = []"
  by (simp_all add: normalize_term_def strip_def is_space_def)

theorem empty_group_dropped_witness:
  "normalize_term '' '' = [] \<and> normalize_term [] = [] \<and> normalize_term [CHR 0x09] = [] \<and>
   build_concept_map (\<lambda>idx. sorted_list_of_set) [[''OD'', ''Ojo derecho'']]
     ([(''AV'', [''Agudeza visual''])] @ ('' '', [[], [CHR 0x09]]) # [(''PIO'', [''Presion intraocular''])]) [] =
   build_concept_map (\<lambda>idx. sorted_list_of_set) [[''OD'', ''Ojo derecho'']]
     ([(''AV'', [''Agudeza visual''])] @ [(''PIO'', [''Presion intraocular''])]) [] \<and>
   build_concept_map (\<lambda>idx. sorted_list_of_set) ([[''OD'', ''Ojo derecho'']] @ ['' '', []] # [[''OI'']]) [] [] =
   build_concept_map (\<lambda>idx. sorted_list_of_set) ([[''OD'', ''Ojo derecho'']] @ [[''OI'']]) [] [] \<and>
   build_concept_map (\<lambda>idx. sorted_list_of_set) [] [] ([] @ ([], '' '') # [(''OI'', ''Ojo izquierdo'')]) =
   build_concept_map (\<lambda>idx. sorted_list_of_set) [] [] ([] @ [(''OI'', ''Ojo izquierdo'')]) \<and>
   map fst (build_concept_map (\<lambda>idx. sorted_list_of_set) ([[''OD'', ''Ojo derecho'']] @ ['' '', []] # [[''OI'']]) [] []) =
     [''C0001'', ''C0002'']"
proof -
  have h1: "\<forall>t \<in> set ('' '' # [[], [CHR 0x09]]). normalize_term t = []"
    and h2: "\<forall>t \<in> set ['' '', []]. normalize_term t = []"
    and h3: "\<forall>t \<in> set [[], '' '']. normalize_term t = []"
    by (simp_all add: normalize_blank)
  have k: "map fst (build_concept_map (\<lambda>idx. sorted_list_of_set) ([[''OD'', ''Ojo derecho'']] @ ['' '', []] # [[''OI'']]) [] []) =
     [''C0001'', ''C0002'']"
    by code_simp
  note t = empty_group_dropped [of "'' ''" "[[], [CHR 0x09]]" "\<lambda>idx. sorted_list_of_set"
      "[[''OD'', ''Ojo derecho'']]" "[(''AV'', [''Agudeza visual''])]" "[(''PIO'', [''Presion intraocular''])]" "[]"]
    empty_group_dropped [where synonym_list = "['' '', []]" and order = "\<lambda>idx. sorted_list_of_set"
      and ?s1.0 = "[[''OD'', ''Ojo derecho'']]" and ?s2.0 = "[[''OI'']]" and siglas_json = "[]" and siglas_csv = "[]"]
    empty_group_dropped [where sigla' = "[]" and expansion = "'' ''" and order = "\<lambda>idx. sorted_list_of_set"
      and sinonimos = "[]" and siglas_json = "[]" and ?c1.0 = "[]" and ?c2.0 = "[(''OI'', ''Ojo izquierdo'')]"]
  show ?thesis using h1 h2 h3 k t normalize_blank by blast
qed

section \<open>Worked inputs\<close>

lemma terms_list_unique:
  assumes ord: "set_order order"
    and sorted: "sorted (map lower ys)"
    and dist: "distinct (map lower ys)"
    and S: "strip_suffix ` S = set ys"
  shows "terms_list (order idx) S = ys"
proof -
  let ?zs = "sort_key lower (order idx (set ys))"
  have xs: "set (order idx (set ys)) = set ys" "distinct (order idx (set ys))"
    using ord by (simp_all add: set_order_def)
  have inj: "inj_on lower (set ys)" and dys: "distinct ys"
    using dist by (simp_all add: distinct_map)
  have set_zs: "set ?zs = set ys" and dzs: "distinct ?zs" using xs by simp_all
  have "sorted (map lower ?zs)" by simp
  moreover have "distinct (map lower ?zs)" using dzs inj set_zs by (simp add: distinct_map)
  moreover have "set (map lower ?zs) = set (map lower ys)" using set_zs by simp
  ultimately have "map lower ?zs = map lower ys"
    using sorted dist by (intro sorted_distinct_set_unique) simp_all
  moreover have "inj_on lower (set ?zs \<union> set ys)" using inj set_zs by simp
  ultimately have "?zs = ys" by (simp add: inj_on_map_eq_map)
  then show ?thesis by (simp add: terms_list_def S)
qed

lemma concept_id_1_2:
  "concept_id 1 = ''C0001''" "concept_id 2 = ''C0002''"
  "concept_id (Suc 0) = ''C0001''" "concept_id (Suc (Suc 0)) = ''C0002''"
  by code_simp+

lemma make_map_two:
  "make_map order [a, b] =
     [(''C0001'', terms_list (order 1) a), (''C0002'', terms_list (order 2) b)]"
  by (simp add: make_map_eq concept_id_1_2 numeral_2_eq_2)

lemma make_map_one: "make_map order [a] = [(''C0001'', terms_list (order 1) a)]"
  by (simp add: make_map_eq concept_id_1_2)

lemma ex_cluster_AM:
  "cluster [] [(''AM'', [''Agujero macular'']), (''AM'', [''Astigmatismo mixto''])] [] =
     [{''AM'', ''Agujero macular''}, {''AM'', ''Astigmatismo mixto''}]"
  by code_simp

lemma ex_cluster_AM1:
  "cluster [] [(''AM'', [''AM'', ''Agujero macular'']), (''AM-1'', [''AM'', ''Astigmatismo mixto''])] [] =
     [{''AM'', ''Agujero macular''}, {''AM-1'', ''AM'', ''Astigmatismo mixto''}]"
  by code_simp

lemma ex_suffix_AM:
  "strip_suffix ` {''AM'', ''Agujero macular''} = set [''Agujero macular'', ''AM'']"
  "strip_suffix ` {''AM'', ''Astigmatismo mixto''} = set [''AM'', ''Astigmatismo mixto'']"
  "strip_suffix ` {''AM-1'', ''AM'', ''Astigmatismo mixto''} = set [''AM'', ''Astigmatismo mixto'']"
  by code_simp+

lemma ex_lower_AM:
  "sorted (map lower [''Agujero macular'', ''AM''])" "distinct (map lower [''Agujero macular'', ''AM''])"
  "sorted (map lower [''AM'', ''Astigmatismo mixto''])" "distinct (map lower [''AM'', ''Astigmatismo mixto''])"
  by code_simp+

lemma ex_index_AM:
  "build_inverted_index
     [(''C0001'', [''Agujero macular'', ''AM'']), (''C0002'', [''AM'', ''Astigmatismo mixto''])] =
   [(''AM'', \<lparr>concept_ids = [''C0001'', ''C0002''], is_ambiguous = True\<rparr>),
    (''Agujero macular'', \<lparr>concept_ids = [''C0001''], is_ambiguous = False\<rparr>),
    (''Astigmatismo mixto'', \<lparr>concept_ids = [''C0002''], is_ambiguous = False\<rparr>)]"
  by code_simp

section \<open>Canonical groups\<close>

lemma cluster_keeps_canonical:
  "length (filter (\<lambda>S. S \<noteq> {}) (canonical_sets siglas_json)) \<le>
     length (cluster sinonimos siglas_json siglas_csv) \<and>
   (\<forall>i < length (filter (\<lambda>S. S \<noteq> {}) (canonical_sets siglas_json)).
      filter (\<lambda>S. S \<noteq> {}) (canonical_sets siglas_json) ! i \<subseteq>
      cluster sinonimos siglas_json siglas_csv ! i)"
  unfolding cluster_fold by (rule fold_add_mergeable_grows)

lemma build_AM:
  assumes "set_order order"
  shows "build_concept_map order []
           [(''AM'', [''Agujero macular'']), (''AM'', [''Astigmatismo mixto''])] [] =
         [(''C0001'', [''Agujero macular'', ''AM'']), (''C0002'', [''AM'', ''Astigmatismo mixto''])]"
    and "build_concept_map order []
           [(''AM'', [''AM'', ''Agujero macular'']), (''AM-1'', [''AM'', ''Astigmatismo mixto''])] [] =
         [(''C0001'', [''Agujero macular'', ''AM'']), (''C0002'', [''AM'', ''Astigmatismo mixto''])]"
  using assms
  by (simp_all only: build_concept_map_def ex_cluster_AM ex_cluster_AM1 make_map_two
        terms_list_unique [OF _ ex_lower_AM(1,2) ex_suffix_AM(1)]
        terms_list_unique [OF _ ex_lower_AM(3,4) ex_suffix_AM(2)]
        terms_list_unique [OF _ ex_lower_AM(3,4) ex_suffix_AM(3)])

lemma ex_index_AM_lookup:
  "map_of (build_inverted_index
     [(''C0001'', [''Agujero macular'', ''AM'']), (''C0002'', [''AM'', ''Astigmatismo mixto''])]) ''AM'' =
   Some \<lparr>concept_ids = [''C0001'', ''C0002''], is_ambiguous = True\<rparr>"
  by (simp add: ex_index_AM)

text \<open>
  C2. The first pass appends the normalized term set of every canonical group that is not
  empty, in source order, and compares it with nothing; the later passes only add terms
  to these concepts, so that each keeps its place and its terms to the end. For the two
  groups of the abbreviation AM, given with AM as their key, or as the repository's own
  generator writes them (keys AM and AM-1, the abbreviation repeated among the
  expansions), the Concept Map has two concepts that both contain AM, and the index entry
  of AM lists both identifiers and is ambiguous.
\<close>

theorem canonical_never_merged:
  "paso1 siglas_json concepts = concepts @ filter (\<lambda>S. S \<noteq> {}) (canonical_sets siglas_json) \<and>
   length (filter (\<lambda>S. S \<noteq> {}) (canonical_sets siglas_json)) \<le>
     length (cluster sinonimos siglas_json siglas_csv) \<and>
   (\<forall>i < length (filter (\<lambda>S. S \<noteq> {}) (canonical_sets siglas_json)).
      filter (\<lambda>S. S \<noteq> {}) (canonical_sets siglas_json) ! i \<subseteq>
      cluster sinonimos siglas_json siglas_csv ! i) \<and>
   (set_order order \<longrightarrow>
      build_concept_map order []
        [(''AM'', [''Agujero macular'']), (''AM'', [''Astigmatismo mixto''])] [] =
      [(''C0001'', [''Agujero macular'', ''AM'']), (''C0002'', [''AM'', ''Astigmatismo mixto''])] \<and>
      build_concept_map order []
        [(''AM'', [''AM'', ''Agujero macular'']), (''AM-1'', [''AM'', ''Astigmatismo mixto''])] [] =
      [(''C0001'', [''Agujero macular'', ''AM'']), (''C0002'', [''AM'', ''Astigmatismo mixto''])] \<and>
      map_of (build_inverted_index (build_concept_map order []
        [(''AM'', [''Agujero macular'']), (''AM'', [''Astigmatismo mixto''])] [])) ''AM'' =
      Some \<lparr>concept_ids = [''C0001'', ''C0002''], is_ambiguous = True\<rparr>)"
proof (intro conjI impI)
  show "paso1 siglas_json concepts = concepts @ filter (\<lambda>S. S \<noteq> {}) (canonical_sets siglas_json)"
    by (simp only: paso1_append canonical_sets_def)
next
  show "length (filter (\<lambda>S. S \<noteq> {}) (canonical_sets siglas_json)) \<le>
     length (cluster sinonimos siglas_json siglas_csv)"
    using cluster_keeps_canonical by blast
next
  show "\<forall>i < length (filter (\<lambda>S. S \<noteq> {}) (canonical_sets siglas_json)).
      filter (\<lambda>S. S \<noteq> {}) (canonical_sets siglas_json) ! i \<subseteq>
      cluster sinonimos siglas_json siglas_csv ! i"
    using cluster_keeps_canonical by blast
next
  assume "set_order order"
  then show "build_concept_map order []
        [(''AM'', [''Agujero macular'']), (''AM'', [''Astigmatismo mixto''])] [] =
      [(''C0001'', [''Agujero macular'', ''AM'']), (''C0002'', [''AM'', ''Astigmatismo mixto''])]"
    by (rule build_AM)
next
  assume "set_order order"
  then show "build_concept_map order []
        [(''AM'', [''AM'', ''Agujero macular'']), (''AM-1'', [''AM'', ''Astigmatismo mixto''])] [] =
      [(''C0001'', [''Agujero macular'', ''AM'']), (''C0002'', [''AM'', ''Astigmatismo mixto''])]"
    by (rule build_AM)
next
  assume "set_order order"
  then show "map_of (build_inverted_index (build_concept_map order []
        [(''AM'', [''Agujero macular'']), (''AM'', [''Astigmatismo mixto''])] [])) ''AM'' =
      Some \<lparr>concept_ids = [''C0001'', ''C0002''], is_ambiguous = True\<rparr>"
    by (simp only: build_AM ex_index_AM_lookup)
qed

lemma set_order_sorted: "set_order (\<lambda>idx. sorted_list_of_set)"
  by (simp add: set_order_def)

lemma ex_canonical_AM:
  "filter (\<lambda>S. S \<noteq> {})
     (canonical_sets [(''AM'', [''Agujero macular'']), ('' '', []), (''AM'', [''Astigmatismo mixto''])]) =
   [{''AM'', ''Agujero macular''}, {''AM'', ''Astigmatismo mixto''}]"
  by code_simp

lemma ex_cluster_AM_merge:
  "cluster [[''AM'', ''Maculopatia'']]
     [(''AM'', [''Agujero macular'']), ('' '', []), (''AM'', [''Astigmatismo mixto''])] [] =
   [{''AM'', ''Agujero macular'', ''Maculopatia''}, {''AM'', ''Astigmatismo mixto''}]"
  by code_simp

theorem canonical_never_merged_witness:
  "set_order (\<lambda>idx. sorted_list_of_set) \<and>
   paso1 [(''AM'', [''Agujero macular'']), ('' '', []), (''AM'', [''Astigmatismo mixto''])] [] =
     [{''AM'', ''Agujero macular''}, {''AM'', ''Astigmatismo mixto''}] \<and>
   (1::nat) < length [{''AM'', ''Agujero macular''}, {''AM'', ''Astigmatismo mixto''}] \<and>
   [{''AM'', ''Agujero macular''}, {''AM'', ''Astigmatismo mixto''}] ! 1 \<subseteq>
     [{''AM'', ''Agujero macular'', ''Maculopatia''}, {''AM'', ''Astigmatismo mixto''}] ! 1 \<and>
   build_concept_map (\<lambda>idx. sorted_list_of_set) []
     [(''AM'', [''Agujero macular'']), (''AM'', [''Astigmatismo mixto''])] [] =
   [(''C0001'', [''Agujero macular'', ''AM'']), (''C0002'', [''AM'', ''Astigmatismo mixto''])] \<and>
   map_of (build_inverted_index (build_concept_map (\<lambda>idx. sorted_list_of_set) []
     [(''AM'', [''Agujero macular'']), (''AM'', [''Astigmatismo mixto''])] [])) ''AM'' =
   Some \<lparr>concept_ids = [''C0001'', ''C0002''], is_ambiguous = True\<rparr>"
proof -
  note t = canonical_never_merged [of
      "[(''AM'', [''Agujero macular'']), ('' '', []), (''AM'', [''Astigmatismo mixto''])]" "[]"
      "[[''AM'', ''Maculopatia'']]" "[]" "\<lambda>idx. sorted_list_of_set"]
  have l: "(1::nat) < length [{''AM'', ''Agujero macular''}, {''AM'', ''Astigmatismo mixto''}]"
    by simp
  from t have "paso1 [(''AM'', [''Agujero macular'']), ('' '', []), (''AM'', [''Astigmatismo mixto''])] [] =
     [{''AM'', ''Agujero macular''}, {''AM'', ''Astigmatismo mixto''}]"
    by (simp only: ex_canonical_AM append_Nil)
  moreover from t l have "[{''AM'', ''Agujero macular''}, {''AM'', ''Astigmatismo mixto''}] ! 1 \<subseteq>
     [{''AM'', ''Agujero macular'', ''Maculopatia''}, {''AM'', ''Astigmatismo mixto''}] ! 1"
    unfolding ex_canonical_AM ex_cluster_AM_merge by blast
  ultimately show ?thesis using t l set_order_sorted by blast
qed

section \<open>First match wins\<close>

lemma ex_cluster_XY:
  "cluster [[''foo'', ''bar'']] [(''X'', [''foo'']), (''Y'', [''bar''])] [] =
     [{''X'', ''foo'', ''bar''}, {''Y'', ''bar''}]"
  "cluster [] [(''X'', [''foo'']), (''Y'', [''bar''])] [(''foo'', ''bar'')] =
     [{''X'', ''foo'', ''bar''}, {''Y'', ''bar''}]"
  "cluster [] [(''X'', [''foo'']), (''Y'', [''bar''])] [] = [{''X'', ''foo''}, {''Y'', ''bar''}]"
  by code_simp+

lemma ex_suffix_XY:
  "strip_suffix ` {''X'', ''foo'', ''bar''} = set [''bar'', ''foo'', ''X'']"
  "strip_suffix ` {''Y'', ''bar''} = set [''bar'', ''Y'']"
  "strip_suffix ` {''X'', ''foo''} = set [''foo'', ''X'']"
  by code_simp+

lemma ex_lower_XY:
  "sorted (map lower [''bar'', ''foo'', ''X''])" "distinct (map lower [''bar'', ''foo'', ''X''])"
  "sorted (map lower [''bar'', ''Y''])" "distinct (map lower [''bar'', ''Y''])"
  "sorted (map lower [''foo'', ''X''])" "distinct (map lower [''foo'', ''X''])"
  by code_simp+

lemma build_XY:
  assumes "set_order order"
  shows "build_concept_map order [[''foo'', ''bar'']] [(''X'', [''foo'']), (''Y'', [''bar''])] [] =
         [(''C0001'', [''bar'', ''foo'', ''X'']), (''C0002'', [''bar'', ''Y''])]"
    and "build_concept_map order [] [(''X'', [''foo'']), (''Y'', [''bar''])] [(''foo'', ''bar'')] =
         [(''C0001'', [''bar'', ''foo'', ''X'']), (''C0002'', [''bar'', ''Y''])]"
    and "build_concept_map order [] [(''X'', [''foo'']), (''Y'', [''bar''])] [] =
         [(''C0001'', [''foo'', ''X'']), (''C0002'', [''bar'', ''Y''])]"
  using assms
  by (simp_all only: build_concept_map_def ex_cluster_XY make_map_two
        terms_list_unique [OF _ ex_lower_XY(1,2) ex_suffix_XY(1)]
        terms_list_unique [OF _ ex_lower_XY(3,4) ex_suffix_XY(2)]
        terms_list_unique [OF _ ex_lower_XY(5,6) ex_suffix_XY(3)])

lemma paso2_Cons:
  "paso2 (synonym_list # sinonimos) cs =
   paso2 sinonimos (add_mergeable (normalized_set synonym_list) cs)"
  by (simp add: paso2_def)

lemma paso3_Cons:
  "paso3 ((sigla, expansion) # siglas_csv) cs =
   paso3 siglas_csv (add_mergeable (normalized_set [sigla, expansion]) cs)"
  by (simp add: paso3_def)

text \<open>
  C3. A mergeable group with normalized term set \<open>S\<close> (not empty) is folded in by
  \<open>add_mergeable\<close>, in the second pass and in the third. If \<open>i\<close> is the first concept, in
  creation order, that shares a term with \<open>S\<close>, the result is the list of concepts with
  concept \<open>i\<close> replaced by its union with \<open>S\<close> and every other concept as it was, also
  those that share a term with \<open>S\<close>; if no concept shares a term with \<open>S\<close>, \<open>S\<close> is
  appended as a new concept. After the canonical groups X, foo and Y, bar the mergeable
  group foo, bar (from either auxiliary source) joins the concept of X, and the concept of
  Y is what it is without that group.
\<close>

theorem first_match_wins:
  "(S \<noteq> {} \<and> i < length cs \<and> S \<inter> cs ! i \<noteq> {} \<and> (\<forall>j<i. S \<inter> cs ! j = {}) \<longrightarrow>
      add_mergeable S cs = cs[i := cs ! i \<union> S]) \<and>
   (S \<noteq> {} \<and> (\<forall>c \<in> set cs. S \<inter> c = {}) \<longrightarrow> add_mergeable S cs = cs @ [S]) \<and>
   paso2 (synonym_list # sinonimos) cs =
     paso2 sinonimos (add_mergeable (normalized_set synonym_list) cs) \<and>
   paso3 ((sigla, expansion) # siglas_csv) cs =
     paso3 siglas_csv (add_mergeable (normalized_set [sigla, expansion]) cs) \<and>
   (set_order order \<longrightarrow>
      build_concept_map order [[''foo'', ''bar'']] [(''X'', [''foo'']), (''Y'', [''bar''])] [] =
        [(''C0001'', [''bar'', ''foo'', ''X'']), (''C0002'', [''bar'', ''Y''])] \<and>
      build_concept_map order [] [(''X'', [''foo'']), (''Y'', [''bar''])] [(''foo'', ''bar'')] =
        [(''C0001'', [''bar'', ''foo'', ''X'']), (''C0002'', [''bar'', ''Y''])] \<and>
      build_concept_map order [] [(''X'', [''foo'']), (''Y'', [''bar''])] [] =
        [(''C0001'', [''foo'', ''X'']), (''C0002'', [''bar'', ''Y''])])"
proof (intro conjI impI)
  assume "S \<noteq> {} \<and> i < length cs \<and> S \<inter> cs ! i \<noteq> {} \<and> (\<forall>j<i. S \<inter> cs ! j = {})"
  then show "add_mergeable S cs = cs[i := cs ! i \<union> S]" by (intro add_mergeable_hit) simp_all
next
  assume "S \<noteq> {} \<and> (\<forall>c \<in> set cs. S \<inter> c = {})"
  then show "add_mergeable S cs = cs @ [S]" by (intro add_mergeable_miss) simp_all
next
  show "paso2 (synonym_list # sinonimos) cs =
     paso2 sinonimos (add_mergeable (normalized_set synonym_list) cs)"
    by (rule paso2_Cons)
next
  show "paso3 ((sigla, expansion) # siglas_csv) cs =
     paso3 siglas_csv (add_mergeable (normalized_set [sigla, expansion]) cs)"
    by (rule paso3_Cons)
next
  assume "set_order order"
  then show "build_concept_map order [[''foo'', ''bar'']] [(''X'', [''foo'']), (''Y'', [''bar''])] [] =
        [(''C0001'', [''bar'', ''foo'', ''X'']), (''C0002'', [''bar'', ''Y''])]"
    by (rule build_XY)
next
  assume "set_order order"
  then show "build_concept_map order [] [(''X'', [''foo'']), (''Y'', [''bar''])] [(''foo'', ''bar'')] =
        [(''C0001'', [''bar'', ''foo'', ''X'']), (''C0002'', [''bar'', ''Y''])]"
    by (rule build_XY)
next
  assume "set_order order"
  then show "build_concept_map order [] [(''X'', [''foo'']), (''Y'', [''bar''])] [] =
        [(''C0001'', [''foo'', ''X'']), (''C0002'', [''bar'', ''Y''])]"
    by (rule build_XY)
qed

lemma ex_hit_XY:
  "{''foo'', ''bar''} \<noteq> ({} :: string set)"
  "(0::nat) < length [{''X'', ''foo''}, {''Y'', ''bar''}]"
  "{''foo'', ''bar''} \<inter> [{''X'', ''foo''}, {''Y'', ''bar''}] ! 0 \<noteq> {}"
  "{''foo'', ''bar''} \<inter> [{''X'', ''foo''}, {''Y'', ''bar''}] ! 1 \<noteq> {}"
  "\<forall>j<0::nat. {''foo'', ''bar''} \<inter> [{''X'', ''foo''}, {''Y'', ''bar''}] ! j = {}"
  by simp_all

lemma ex_miss_XY:
  "{''baz''} \<noteq> ({} :: string set)"
  "\<forall>c \<in> set [{''X'', ''foo''}, {''Y'', ''bar''}]. {''baz''} \<inter> c = {}"
  by simp_all

theorem first_match_wins_witness:
  "set_order (\<lambda>idx. sorted_list_of_set) \<and>
   {''foo'', ''bar''} \<inter> [{''X'', ''foo''}, {''Y'', ''bar''}] ! 0 \<noteq> {} \<and>
   {''foo'', ''bar''} \<inter> [{''X'', ''foo''}, {''Y'', ''bar''}] ! 1 \<noteq> {} \<and>
   add_mergeable {''foo'', ''bar''} [{''X'', ''foo''}, {''Y'', ''bar''}] =
     [{''X'', ''foo''} \<union> {''foo'', ''bar''}, {''Y'', ''bar''}] \<and>
   add_mergeable {''baz''} [{''X'', ''foo''}, {''Y'', ''bar''}] =
     [{''X'', ''foo''}, {''Y'', ''bar''}, {''baz''}] \<and>
   build_concept_map (\<lambda>idx. sorted_list_of_set) [[''foo'', ''bar'']] [(''X'', [''foo'']), (''Y'', [''bar''])] [] =
     [(''C0001'', [''bar'', ''foo'', ''X'']), (''C0002'', [''bar'', ''Y''])]"
proof -
  note hit = first_match_wins [of "{''foo'', ''bar''}" 0 "[{''X'', ''foo''}, {''Y'', ''bar''}]"
      "[]" "[]" "[]" "[]" "[]" "\<lambda>idx. sorted_list_of_set"]
  note miss = first_match_wins [of "{''baz''}" 0 "[{''X'', ''foo''}, {''Y'', ''bar''}]"
      "[]" "[]" "[]" "[]" "[]" "\<lambda>idx. sorted_list_of_set"]
  have a: "add_mergeable {''foo'', ''bar''} [{''X'', ''foo''}, {''Y'', ''bar''}] =
     [{''X'', ''foo''}, {''Y'', ''bar''}][0 := [{''X'', ''foo''}, {''Y'', ''bar''}] ! 0 \<union> {''foo'', ''bar''}]"
    using hit ex_hit_XY by blast
  have b: "add_mergeable {''baz''} [{''X'', ''foo''}, {''Y'', ''bar''}] =
     [{''X'', ''foo''}, {''Y'', ''bar''}] @ [{''baz''}]"
    using miss ex_miss_XY by blast
  have c: "build_concept_map (\<lambda>idx. sorted_list_of_set) [[''foo'', ''bar'']] [(''X'', [''foo'']), (''Y'', [''bar''])] [] =
     [(''C0001'', [''bar'', ''foo'', ''X'']), (''C0002'', [''bar'', ''Y''])]"
    using hit set_order_sorted by blast
  show ?thesis using a b c set_order_sorted ex_hit_XY(3,4) by simp
qed

section \<open>Disjoint concepts\<close>

lemma filter_two:
  assumes "i < j" "j < length xs" "P (xs ! i)" "P (xs ! j)"
  shows "2 \<le> length (filter P xs)"
proof -
  have xs: "xs = take j xs @ xs ! j # drop (Suc j) xs"
    using assms(2) by (rule id_take_nth_drop)
  have "xs ! i \<in> set (take j xs)"
  proof -
    have "i < length (take j xs)" using assms(1,2) by simp
    then have "take j xs ! i \<in> set (take j xs)" by (rule nth_mem)
    then show ?thesis using assms(1) by simp
  qed
  then have "filter P (take j xs) \<noteq> []" using assms(3) by (auto simp: filter_empty_conv)
  then have "1 \<le> length (filter P (take j xs))" by (cases "filter P (take j xs)") simp_all
  moreover have "length (filter P xs) =
      length (filter P (take j xs)) + length (filter P (xs ! j # drop (Suc j) xs))"
    by (subst xs) simp
  moreover have "1 \<le> length (filter P (xs ! j # drop (Suc j) xs))" using assms(4) by simp
  ultimately show ?thesis by linarith
qed

lemma single_hit_unique:
  assumes "length (filter P xs) \<le> 1" "i < length xs" "j < length xs" "P (xs ! i)" "P (xs ! j)"
  shows "i = j"
proof (rule ccontr)
  assume "i \<noteq> j"
  then consider "i < j" | "j < i" by linarith
  then have "2 \<le> length (filter P xs)"
    using assms(2-5) by cases (simp_all add: filter_two)
  with assms(1) show False by simp
qed

lemma disjoint_list_iff:
  "disjoint_list cs \<longleftrightarrow> (\<forall>i<length cs. \<forall>j<length cs. i \<noteq> j \<longrightarrow> cs ! i \<inter> cs ! j = {})"
  by (auto simp: disjoint_list_def)

lemma add_mergeable_disjoint:
  assumes dis: "disjoint_list cs" and one: "length (filter (\<lambda>c. S \<inter> c \<noteq> {}) cs) \<le> 1"
  shows "disjoint_list (add_mergeable S cs)"
proof (cases "S = {}")
  case True with dis show ?thesis by (simp add: add_mergeable_empty)
next
  case ne: False
  show ?thesis
  proof (cases "\<exists>c \<in> set cs. S \<inter> c \<noteq> {}")
    case False
    then have miss: "\<forall>c \<in> set cs. S \<inter> c = {}" by simp
    then have eq: "add_mergeable S cs = cs @ [S]" using ne by (simp add: add_mergeable_miss)
    have "(cs @ [S]) ! i \<inter> (cs @ [S]) ! j = {}"
      if ij: "i < Suc (length cs)" "j < Suc (length cs)" "i \<noteq> j" for i j
    proof -
      consider "i < length cs" "j < length cs" | "i = length cs" "j < length cs"
        | "i < length cs" "j = length cs"
        using ij by (auto simp: less_Suc_eq)
      then show ?thesis
      proof cases
        case 1 then show ?thesis using dis ij(3) by (simp add: disjoint_list_iff nth_append)
      next
        case 2
        then have "S \<inter> cs ! j = {}" using miss by simp
        then show ?thesis using 2 by (simp add: nth_append)
      next
        case 3
        then have "S \<inter> cs ! i = {}" using miss by simp
        then show ?thesis using 3 by (auto simp: nth_append)
      qed
    qed
    then show ?thesis by (simp add: eq disjoint_list_iff)
  next
    case True
    then obtain k where k: "k < length cs" "S \<inter> cs ! k \<noteq> {}" "\<forall>j<k. S \<inter> cs ! j = {}"
      by (rule first_hit)
    then have eq: "add_mergeable S cs = cs[k := cs ! k \<union> S]"
      using ne by (simp add: add_mergeable_hit)
    have other: "S \<inter> cs ! j = {}" if "j < length cs" "j \<noteq> k" for j
      using single_hit_unique [OF one that(1) k(1) _ k(2)] that(2) by blast
    have "cs[k := cs ! k \<union> S] ! i \<inter> cs[k := cs ! k \<union> S] ! j = {}"
      if "i < length cs" "j < length cs" "i \<noteq> j" for i j
    proof -
      have d: "cs ! i \<inter> cs ! j = {}" using dis that by (simp add: disjoint_list_iff)
      consider "i = k" | "j = k" | "i \<noteq> k" "j \<noteq> k" by blast
      then show ?thesis
      proof cases
        case 1
        then have "S \<inter> cs ! j = {}" using other that by simp
        then show ?thesis using 1 that d by (auto simp: nth_list_update)
      next
        case 2
        then have "S \<inter> cs ! i = {}" using other that by simp
        then show ?thesis using 2 that d by (auto simp: nth_list_update)
      next
        case 3 then show ?thesis using d by simp
      qed
    qed
    then show ?thesis by (simp add: eq disjoint_list_iff)
  qed
qed

lemma fold_add_mergeable_disjoint:
  "disjoint_list cs \<Longrightarrow> single_hits cs Ss \<Longrightarrow> disjoint_list (fold add_mergeable Ss cs)"
  by (induction Ss arbitrary: cs) (simp_all add: add_mergeable_disjoint)

lemma add_mergeable_finite:
  assumes "\<forall>c \<in> set cs. finite c" "finite S"
  shows "\<forall>c \<in> set (add_mergeable S cs). finite c"
proof (cases "S \<noteq> {} \<and> (\<exists>c \<in> set cs. S \<inter> c \<noteq> {})")
  case True
  then have "\<exists>c \<in> set cs. S \<inter> c \<noteq> {}" by simp
  then obtain k where k: "k < length cs" "S \<inter> cs ! k \<noteq> {}" "\<forall>j<k. S \<inter> cs ! j = {}"
    by (rule first_hit)
  then have eq: "add_mergeable S cs = cs[k := cs ! k \<union> S]"
    using True by (simp add: add_mergeable_hit)
  have fin: "finite (cs ! k \<union> S)" using assms k(1) by simp
  show ?thesis
  proof
    fix c assume "c \<in> set (add_mergeable S cs)"
    then have "c \<in> insert (cs ! k \<union> S) (set cs)"
      using set_update_subset_insert [of cs k "cs ! k \<union> S"] by (auto simp: eq)
    then show "finite c" using fin assms(1) by auto
  qed
next
  case False
  then consider "S = {}" | "S \<noteq> {}" "\<forall>c \<in> set cs. S \<inter> c = {}" by blast
  then show ?thesis
    using assms by cases (simp_all add: add_mergeable_empty add_mergeable_miss)
qed

lemma fold_add_mergeable_finite:
  "\<forall>c \<in> set cs. finite c \<Longrightarrow> \<forall>S \<in> set Ss. finite S \<Longrightarrow>
   \<forall>c \<in> set (fold add_mergeable Ss cs). finite c"
proof (induction Ss arbitrary: cs)
  case Nil then show ?case by simp
next
  case (Cons S Ss)
  have "\<forall>c \<in> set (add_mergeable S cs). finite c"
    using Cons.prems by (intro add_mergeable_finite) simp_all
  then have "\<forall>c \<in> set (fold add_mergeable Ss (add_mergeable S cs)). finite c"
    using Cons.prems by (intro Cons.IH) simp_all
  then show ?case by simp
qed

lemma cluster_finite: "\<forall>c \<in> set (cluster sinonimos siglas_json siglas_csv). finite c"
  unfolding cluster_fold
  by (intro fold_add_mergeable_finite)
     (auto simp: canonical_sets_def mergeable_sets_def finite_normalized_set)

lemma build_concept_map_nth:
  assumes "i < length (cluster sinonimos siglas_json siglas_csv)"
  shows "build_concept_map order sinonimos siglas_json siglas_csv ! i =
         (concept_id (Suc i), terms_list (order (Suc i)) (cluster sinonimos siglas_json siglas_csv ! i))"
  using assms by (simp add: build_concept_map_def make_map_nth)

lemma length_build_concept_map:
  "length (build_concept_map order sinonimos siglas_json siglas_csv) =
   length (cluster sinonimos siglas_json siglas_csv)"
  by (simp add: build_concept_map_def length_make_map)

lemma build_concept_map_entry:
  assumes "(c, ts) \<in> set (build_concept_map order sinonimos siglas_json siglas_csv)"
  obtains i where "i < length (cluster sinonimos siglas_json siglas_csv)"
    and "c = concept_id (Suc i)"
    and "ts = terms_list (order (Suc i)) (cluster sinonimos siglas_json siglas_csv ! i)"
proof -
  from assms obtain i where
    "i < length (build_concept_map order sinonimos siglas_json siglas_csv)"
    "build_concept_map order sinonimos siglas_json siglas_csv ! i = (c, ts)"
    by (auto simp: in_set_conv_nth)
  then show thesis using that by (simp add: length_build_concept_map build_concept_map_nth)
qed

section \<open>Disjointness of the Concept Map\<close>

lemma cluster_disjoint:
  assumes "disjoint_list (paso1 siglas_json [])"
    and "single_hits (paso1 siglas_json []) (mergeable_sets sinonimos siglas_csv)"
  shows "disjoint_list (cluster sinonimos siglas_json siglas_csv)"
proof -
  have "cluster sinonimos siglas_json siglas_csv =
      fold add_mergeable (mergeable_sets sinonimos siglas_csv) (paso1 siglas_json [])"
    by (simp add: cluster_def paso2_fold paso3_fold mergeable_sets_def)
  then show ?thesis using assms by (simp add: fold_add_mergeable_disjoint)
qed

lemma ex_build_suffix:
  assumes "set_order order"
  shows "build_concept_map order
           [[''AM'', ''Agujero macular''], [''AM-1'', ''Astigmatismo mixto'']] [] [] =
         [(''C0001'', [''Agujero macular'', ''AM'']), (''C0002'', [''AM'', ''Astigmatismo mixto''])]"
proof -
  have c: "cluster [[''AM'', ''Agujero macular''], [''AM-1'', ''Astigmatismo mixto'']] [] [] =
      [{''AM'', ''Agujero macular''}, {''AM-1'', ''Astigmatismo mixto''}]"
    by code_simp
  have s: "strip_suffix ` {''AM-1'', ''Astigmatismo mixto''} = set [''AM'', ''Astigmatismo mixto'']"
    by code_simp
  show ?thesis using assms
    by (simp only: build_concept_map_def c make_map_two
        terms_list_unique [OF _ ex_lower_AM(1,2) ex_suffix_AM(1)]
        terms_list_unique [OF _ ex_lower_AM(3,4) s])
qed

text \<open>
  C1, as stated, fails. Canonical groups that share a term stay apart; a mergeable group
  that shares terms with two concepts is united with the first only, which leaves its
  terms in both; and the removal of the suffix can make terms of two concepts equal.
\<close>

theorem concept_map_not_disjoint:
  "\<not> disjoint_map (build_concept_map (\<lambda>idx. sorted_list_of_set) []
       [(''AM'', [''AM'', ''Agujero macular'']), (''AM-1'', [''AM'', ''Astigmatismo mixto''])] []) \<and>
   \<not> disjoint_map (build_concept_map (\<lambda>idx. sorted_list_of_set) [[''foo'', ''bar'']]
       [(''X'', [''foo'']), (''Y'', [''bar''])] []) \<and>
   \<not> disjoint_map (build_concept_map (\<lambda>idx. sorted_list_of_set)
       [[''AM'', ''Agujero macular''], [''AM-1'', ''Astigmatismo mixto'']] [] [])"
  by (simp add: build_AM [OF set_order_sorted] build_XY [OF set_order_sorted]
      ex_build_suffix [OF set_order_sorted] disjoint_map_def)

text \<open>
  C1, amended. If the concepts that the canonical groups create are pairwise disjoint,
  every mergeable group shares terms with at most one of the concepts that exist when it
  is folded in, and the removal of the suffix maps no two terms of the concepts to the
  same term, then the member lists of two different identifiers of the Concept Map have
  no term in common.
\<close>

theorem concept_map_disjoint:
  assumes ord: "set_order order"
    and canon: "disjoint_list (paso1 siglas_json [])"
    and hits: "single_hits (paso1 siglas_json []) (mergeable_sets sinonimos siglas_csv)"
    and inj: "inj_on strip_suffix (\<Union> (set (cluster sinonimos siglas_json siglas_csv)))"
  shows "disjoint_map (build_concept_map order sinonimos siglas_json siglas_csv)"
proof -
  let ?cs = "cluster sinonimos siglas_json siglas_csv"
  have dis: "disjoint_list ?cs" using canon hits by (rule cluster_disjoint)
  have "set ts1 \<inter> set ts2 = {}"
    if e1: "(c1, ts1) \<in> set (build_concept_map order sinonimos siglas_json siglas_csv)"
      and e2: "(c2, ts2) \<in> set (build_concept_map order sinonimos siglas_json siglas_csv)"
      and ne: "c1 \<noteq> c2" for c1 ts1 c2 ts2
  proof -
    from e1 obtain i where i: "i < length ?cs" "c1 = concept_id (Suc i)"
      "ts1 = terms_list (order (Suc i)) (?cs ! i)" by (rule build_concept_map_entry)
    from e2 obtain j where j: "j < length ?cs" "c2 = concept_id (Suc j)"
      "ts2 = terms_list (order (Suc j)) (?cs ! j)" by (rule build_concept_map_entry)
    have "i \<noteq> j" using ne i(2) j(2) by auto
    then have d: "?cs ! i \<inter> ?cs ! j = {}" using dis i(1) j(1) by (simp add: disjoint_list_iff)
    have fi: "finite (?cs ! i)" and fj: "finite (?cs ! j)"
      using cluster_finite [of sinonimos siglas_json siglas_csv] i(1) j(1) by simp_all
    have sub: "?cs ! i \<subseteq> \<Union> (set ?cs)" "?cs ! j \<subseteq> \<Union> (set ?cs)"
      using i(1) j(1) nth_mem [of i ?cs] nth_mem [of j ?cs] by blast+
    have "strip_suffix ` (?cs ! i) \<inter> strip_suffix ` (?cs ! j) = strip_suffix ` (?cs ! i \<inter> ?cs ! j)"
      using inj sub by (rule inj_on_image_Int [symmetric])
    then have "strip_suffix ` (?cs ! i) \<inter> strip_suffix ` (?cs ! j) = {}" using d by simp
    then show ?thesis using ord fi fj by (simp add: i(3) j(3) set_terms_list)
  qed
  then show ?thesis unfolding disjoint_map_def by blast
qed

lemma ex_cluster_AD:
  "paso1 [(''AD'', [''Adicion'']), (''OD'', [''Ojo derecho''])] [] =
     [{''AD'', ''Adicion''}, {''OD'', ''Ojo derecho''}]"
  "mergeable_sets [[''ADD'', ''Adicion'']] [(''OI'', ''Ojo izquierdo'')] =
     [{''ADD'', ''Adicion''}, {''OI'', ''Ojo izquierdo''}]"
  "cluster [[''ADD'', ''Adicion'']] [(''AD'', [''Adicion'']), (''OD'', [''Ojo derecho''])]
     [(''OI'', ''Ojo izquierdo'')] =
     [{''AD'', ''ADD'', ''Adicion''}, {''OD'', ''Ojo derecho''}, {''OI'', ''Ojo izquierdo''}]"
  by code_simp+

lemma ex_hits_AD:
  "disjoint_list [{''AD'', ''Adicion''}, {''OD'', ''Ojo derecho''}]"
  "single_hits [{''AD'', ''Adicion''}, {''OD'', ''Ojo derecho''}]
     [{''ADD'', ''Adicion''}, {''OI'', ''Ojo izquierdo''}]"
  by code_simp+

lemma ex_suffix_AD:
  "strip_suffix ''AD'' = ''AD''" "strip_suffix ''ADD'' = ''ADD''"
  "strip_suffix ''Adicion'' = ''Adicion''" "strip_suffix ''OD'' = ''OD''"
  "strip_suffix ''Ojo derecho'' = ''Ojo derecho''" "strip_suffix ''OI'' = ''OI''"
  "strip_suffix ''Ojo izquierdo'' = ''Ojo izquierdo''"
  by code_simp+

lemma ex_inj_AD:
  "inj_on strip_suffix
     (\<Union> (set [{''AD'', ''ADD'', ''Adicion''}, {''OD'', ''Ojo derecho''}, {''OI'', ''Ojo izquierdo''}]))"
  by (simp add: ex_suffix_AD)

theorem concept_map_disjoint_witness:
  "set_order (\<lambda>idx. sorted_list_of_set) \<and>
   disjoint_list (paso1 [(''AD'', [''Adicion'']), (''OD'', [''Ojo derecho''])] []) \<and>
   single_hits (paso1 [(''AD'', [''Adicion'']), (''OD'', [''Ojo derecho''])] [])
     (mergeable_sets [[''ADD'', ''Adicion'']] [(''OI'', ''Ojo izquierdo'')]) \<and>
   cluster [[''ADD'', ''Adicion'']] [(''AD'', [''Adicion'']), (''OD'', [''Ojo derecho''])]
     [(''OI'', ''Ojo izquierdo'')] =
     [{''AD'', ''ADD'', ''Adicion''}, {''OD'', ''Ojo derecho''}, {''OI'', ''Ojo izquierdo''}] \<and>
   disjoint_map (build_concept_map (\<lambda>idx. sorted_list_of_set) [[''ADD'', ''Adicion'']]
     [(''AD'', [''Adicion'']), (''OD'', [''Ojo derecho''])] [(''OI'', ''Ojo izquierdo'')])"
proof -
  have a: "disjoint_list (paso1 [(''AD'', [''Adicion'']), (''OD'', [''Ojo derecho''])] [])"
    by (simp only: ex_cluster_AD ex_hits_AD)
  have b: "single_hits (paso1 [(''AD'', [''Adicion'']), (''OD'', [''Ojo derecho''])] [])
     (mergeable_sets [[''ADD'', ''Adicion'']] [(''OI'', ''Ojo izquierdo'')])"
    by (simp only: ex_cluster_AD ex_hits_AD)
  have c: "inj_on strip_suffix (\<Union> (set (cluster [[''ADD'', ''Adicion'']]
     [(''AD'', [''Adicion'']), (''OD'', [''Ojo derecho''])] [(''OI'', ''Ojo izquierdo'')])))"
    by (simp only: ex_cluster_AD ex_inj_AD)
  show ?thesis
    using concept_map_disjoint [OF set_order_sorted a b c] set_order_sorted a b ex_cluster_AD(3)
    by blast
qed

section \<open>Member terms of the Concept Map\<close>












section \<open>The inverted index\<close>

lemma ids_of_iff:
  "c \<in> ids_of synonyms t \<longleftrightarrow> (\<exists>ts u. (c, ts) \<in> set synonyms \<and> u \<in> set ts \<and> strip u = t)"
  by (auto simp: ids_of_def)

lemma finite_ids_of: "finite (ids_of synonyms t)"
  by (simp only: ids_of_def List.finite_set)

lemma ids_of_Nil: "ids_of [] t = {}"
  by (simp add: ids_of_def)

lemma ids_of_Cons:
  "ids_of ((c, ts) # synonyms) t = (if t \<in> strip ` set ts then {c} else {}) \<union> ids_of synonyms t"
  by (auto simp: ids_of_def)

lemma lookup_default_update:
  "lookup_default (AList.update k v m) t = (if t = k then v else lookup_default m t)"
  by (simp add: lookup_default_def update_conv')

lemma lookup_default_add_term:
  "lookup_default (add_term c u m) t =
     (if strip u \<noteq> [] \<and> t = strip u then insert c (lookup_default m t) else lookup_default m t)"
  by (simp add: add_term_def Let_def lookup_default_update)

lemma keys_add_term:
  "fst ` set (add_term c u m) = (if strip u \<noteq> [] then insert (strip u) (fst ` set m) else fst ` set m)"
  by (simp add: add_term_def Let_def dom_update)

lemma distinct_add_term: "distinct (map fst m) \<Longrightarrow> distinct (map fst (add_term c u m))"
  by (simp add: add_term_def Let_def distinct_update)

lemma lookup_default_fold_add_term:
  "lookup_default (fold (add_term c) ts m) t =
     lookup_default m t \<union> (if t \<noteq> [] \<and> t \<in> strip ` set ts then {c} else {})"
proof (induction ts arbitrary: m)
  case Nil then show ?case by simp
next
  case (Cons u ts)
  show ?case by (auto simp add: Cons.IH lookup_default_add_term)
qed

lemma keys_fold_add_term:
  "fst ` set (fold (add_term c) ts m) = fst ` set m \<union> (strip ` set ts - {[]})"
proof (induction ts arbitrary: m)
  case Nil then show ?case by simp
next
  case (Cons u ts)
  show ?case by (auto simp add: Cons.IH keys_add_term)
qed

lemma distinct_fold_add_term:
  "distinct (map fst m) \<Longrightarrow> distinct (map fst (fold (add_term c) ts m))"
  by (induction ts arbitrary: m) (simp_all add: distinct_add_term)

lemma lookup_default_fold_synonyms:
  "lookup_default (fold (\<lambda>(cid, terms). fold (add_term cid) terms) synonyms m) t =
     lookup_default m t \<union> (if t \<noteq> [] then ids_of synonyms t else {})"
proof (induction synonyms arbitrary: m)
  case Nil then show ?case by (simp add: ids_of_Nil)
next
  case (Cons entry synonyms)
  obtain c ts where entry: "entry = (c, ts)" by (cases entry)
  show ?case
    by (auto simp add: entry Cons.IH lookup_default_fold_add_term ids_of_Cons)
qed

lemma keys_fold_synonyms:
  "fst ` set (fold (\<lambda>(cid, terms). fold (add_term cid) terms) synonyms m) =
     fst ` set m \<union> ((\<Union>(c, ts) \<in> set synonyms. strip ` set ts) - {[]})"
proof (induction synonyms arbitrary: m)
  case Nil then show ?case by simp
next
  case (Cons entry synonyms)
  obtain c ts where entry: "entry = (c, ts)" by (cases entry)
  show ?case by (auto simp add: entry Cons.IH keys_fold_add_term)
qed

lemma distinct_fold_synonyms:
  "distinct (map fst m) \<Longrightarrow>
   distinct (map fst (fold (\<lambda>(cid, terms). fold (add_term cid) terms) synonyms m))"
proof (induction synonyms arbitrary: m)
  case Nil then show ?case by simp
next
  case (Cons entry synonyms)
  obtain c ts where entry: "entry = (c, ts)" by (cases entry)
  show ?case using Cons.prems by (simp add: entry Cons.IH distinct_fold_add_term)
qed

lemma lookup_default_Nil: "lookup_default [] t = {}"
  by (simp add: lookup_default_def)

lemma lookup_term_to_concepts:
  "lookup_default (build_term_to_concepts synonyms) t = (if t \<noteq> [] then ids_of synonyms t else {})"
  unfolding build_term_to_concepts_def
  by (simp only: lookup_default_fold_synonyms lookup_default_Nil Un_empty_left)

lemma keys_term_to_concepts:
  "fst ` set (build_term_to_concepts synonyms) = (\<Union>(c, ts) \<in> set synonyms. strip ` set ts) - {[]}"
  by (simp add: build_term_to_concepts_def keys_fold_synonyms)

lemma distinct_term_to_concepts: "distinct (map fst (build_term_to_concepts synonyms))"
  by (simp add: build_term_to_concepts_def distinct_fold_synonyms)

lemma map_of_term_to_concepts:
  "map_of (build_term_to_concepts synonyms) t =
     (if t \<in> (\<Union>(c, ts) \<in> set synonyms. strip ` set ts) - {[]} then Some (ids_of synonyms t) else None)"
proof (cases "t \<in> fst ` set (build_term_to_concepts synonyms)")
  case True
  then obtain v where v: "map_of (build_term_to_concepts synonyms) t = Some v"
    by (metis domD dom_map_of_conv_image_fst)
  then have "lookup_default (build_term_to_concepts synonyms) t = v"
    by (simp add: lookup_default_def)
  moreover have "t \<noteq> []" using True by (simp add: keys_term_to_concepts)
  ultimately have "v = ids_of synonyms t" by (simp add: lookup_term_to_concepts)
  then show ?thesis using v True by (simp add: keys_term_to_concepts)
next
  case False
  then have "map_of (build_term_to_concepts synonyms) t = None"
    by (simp add: map_of_eq_None_iff)
  then show ?thesis using False by (simp add: keys_term_to_concepts)
qed

lemma build_inverted_index_eq:
  "build_inverted_index synonyms =
     map (\<lambda>(term, ids). (term, make_entry ids)) (sort_key fst (build_term_to_concepts synonyms))"
proof -
  let ?xs = "sort_key fst (build_term_to_concepts synonyms)"
  have "distinct (map fst ?xs)"
    using distinct_term_to_concepts [of synonyms] by (simp add: distinct_map)
  then have "fold (\<lambda>x. AList.update (fst x) (make_entry (snd x))) ?xs [] =
      [] @ map (\<lambda>x. (fst x, make_entry (snd x))) ?xs"
    by (intro fold_update_fresh) simp_all
  then show ?thesis by (simp add: build_inverted_index_def case_prod_unfold)
qed

lemma keys_inverted_index:
  "sorted (map fst (build_inverted_index synonyms)) \<and>
   distinct (map fst (build_inverted_index synonyms)) \<and>
   set (map fst (build_inverted_index synonyms)) =
     (\<Union>(c, ts) \<in> set synonyms. strip ` set ts) - {[]}"
proof -
  let ?m = "build_term_to_concepts synonyms"
  have eq: "map fst (build_inverted_index synonyms) = map fst (sort_key fst ?m)"
    by (simp add: build_inverted_index_eq case_prod_unfold o_def)
  have "sorted (map fst (sort_key fst ?m))" by simp
  moreover have "distinct (map fst (sort_key fst ?m))"
    using distinct_term_to_concepts [of synonyms] by (simp add: distinct_map)
  moreover have "set (map fst (sort_key fst ?m)) = fst ` set ?m" by simp
  ultimately show ?thesis by (simp only: eq keys_term_to_concepts) 
qed

lemma map_of_inverted_index:
  "map_of (build_inverted_index synonyms) t =
     (if t \<in> (\<Union>(c, ts) \<in> set synonyms. strip ` set ts) - {[]}
      then Some (make_entry (ids_of synonyms t)) else None)"
proof -
  let ?m = "build_term_to_concepts synonyms"
  have d: "distinct (map fst ?m)" by (rule distinct_term_to_concepts)
  have "map_of (build_inverted_index synonyms) t = map_option make_entry (map_of (sort_key fst ?m) t)"
    by (simp add: build_inverted_index_eq map_of_map)
  also have "map_of (sort_key fst ?m) = map_of ?m"
    using d by (intro map_of_eqI) (auto simp: distinct_map dest: map_of_SomeD intro!: map_of_is_SomeI)
  finally show ?thesis by (simp add: map_of_term_to_concepts)
qed

lemma make_entry_ids:
  "finite A \<Longrightarrow> set (concept_ids (make_entry A)) = A"
  "sorted (concept_ids (make_entry A))"
  "distinct (concept_ids (make_entry A))"
  "is_ambiguous (make_entry A) = (length (concept_ids (make_entry A)) > 1)"
  by (simp_all add: make_entry_def Let_def)

lemma index_keys_set:
  "((\<Union>(c, ts) \<in> set synonyms. strip ` set ts) - {[]}) =
     {strip u | c ts u. (c, ts) \<in> set synonyms \<and> u \<in> set ts \<and> strip u \<noteq> []}"
  by auto

lemma index_entry:
  assumes "map_of (build_inverted_index synonyms) t = Some e"
  shows "e = make_entry (ids_of synonyms t)"
  using assms by (simp add: map_of_inverted_index split: if_splits)

lemma index_member:
  assumes "(c, ts) \<in> set synonyms" "u \<in> set ts" "strip u \<noteq> []"
  shows "\<exists>e. map_of (build_inverted_index synonyms) (strip u) = Some e \<and> c \<in> set (concept_ids e)"
proof -
  have k: "strip u \<in> (\<Union>(c, ts) \<in> set synonyms. strip ` set ts) - {[]}" using assms by auto
  have "c \<in> ids_of synonyms (strip u)" using assms(1,2) by (auto simp: ids_of_iff)
  then have "c \<in> set (concept_ids (make_entry (ids_of synonyms (strip u))))"
    by (simp add: make_entry_ids(1) finite_ids_of)
  then show ?thesis using k by (simp add: map_of_inverted_index)
qed

lemma index_listed:
  assumes "map_of (build_inverted_index synonyms) t = Some e" "c \<in> set (concept_ids e)"
  shows "\<exists>ts u. (c, ts) \<in> set synonyms \<and> u \<in> set ts \<and> strip u = t"
proof -
  have "e = make_entry (ids_of synonyms t)" using assms(1) by (rule index_entry)
  then have "c \<in> ids_of synonyms t" using assms(2) by (simp add: make_entry_ids(1) finite_ids_of)
  then show ?thesis by (simp add: ids_of_iff)
qed

lemma index_entries:
  assumes "(t, e) \<in> set (build_inverted_index synonyms)"
  shows "map_of (build_inverted_index synonyms) t = Some e"
  using assms keys_inverted_index [of synonyms] by simp

text \<open>
  C4, as stated, fails: the builder strips every member before it records it. The map
  that clustering returns for the group \<open>foo -1\<close> has the member \<open>foo\<close> followed by a
  space; that member has no index entry, and the entry of \<open>foo\<close> lists a concept whose
  member list does not contain \<open>foo\<close>.
\<close>

theorem index_round_trip_fails:
  "build_concept_map (\<lambda>idx. sorted_list_of_set) [[''foo -1'']] [] [] = [(''C0001'', [''foo ''])] \<and>
   build_inverted_index [(''C0001'', [''foo ''])] =
     [(''foo'', \<lparr>concept_ids = [''C0001''], is_ambiguous = False\<rparr>)] \<and>
   map_of (build_inverted_index [(''C0001'', [''foo ''])]) ''foo '' = None \<and>
   ''foo'' \<notin> set [''foo '']"
proof -
  have 1: "build_concept_map (\<lambda>idx. sorted_list_of_set) [[''foo -1'']] [] [] = [(''C0001'', [''foo ''])]"
    by code_simp
  have 2: "build_inverted_index [(''C0001'', [''foo ''])] =
     [(''foo'', \<lparr>concept_ids = [''C0001''], is_ambiguous = False\<rparr>)]"
    by code_simp
  have 3: "map_of (build_inverted_index [(''C0001'', [''foo ''])]) ''foo '' = None"
    by (simp add: 2)
  have 4: "''foo'' \<notin> set [''foo '']" by simp
  show ?thesis using 1 2 3 4 by blast
qed

text \<open>
  C4, amended. For every concept \<open>c\<close> and member \<open>u\<close> of the Concept Map whose stripped
  form is not empty, the index entry of the stripped form of \<open>u\<close> contains \<open>c\<close>;
  every \<open>c\<close> listed in the entry of a term \<open>t\<close> is a concept with a member whose stripped
  form is \<open>t\<close>. Where all members are stripped and not empty this is the round trip on
  the members themselves. The identifiers of an entry are sorted, without duplicates, and
  the entry is ambiguous exactly when it has more than one identifier.
\<close>

theorem index_round_trip:
  assumes idx: "idx = build_inverted_index synonyms"
  shows
    "(\<forall>(c, ts) \<in> set synonyms. \<forall>u \<in> set ts. strip u \<noteq> [] \<longrightarrow>
        (\<exists>e. map_of idx (strip u) = Some e \<and> c \<in> set (concept_ids e))) \<and>
     (\<forall>t e c. map_of idx t = Some e \<and> c \<in> set (concept_ids e) \<longrightarrow>
        (\<exists>ts u. (c, ts) \<in> set synonyms \<and> u \<in> set ts \<and> strip u = t)) \<and>
     ((\<forall>(c, ts) \<in> set synonyms. \<forall>u \<in> set ts. u \<noteq> [] \<and> strip u = u) \<longrightarrow>
        (\<forall>(c, ts) \<in> set synonyms. \<forall>u \<in> set ts.
           \<exists>e. map_of idx u = Some e \<and> c \<in> set (concept_ids e)) \<and>
        (\<forall>t e c. map_of idx t = Some e \<and> c \<in> set (concept_ids e) \<longrightarrow>
           (\<exists>ts. (c, ts) \<in> set synonyms \<and> t \<in> set ts))) \<and>
     (\<forall>(t, e) \<in> set idx.
        map_of idx t = Some e \<and> sorted (concept_ids e) \<and> distinct (concept_ids e) \<and>
        is_ambiguous e = (length (concept_ids e) > 1))"
proof (intro conjI impI)
  show a: "\<forall>(c, ts) \<in> set synonyms. \<forall>u \<in> set ts. strip u \<noteq> [] \<longrightarrow>
        (\<exists>e. map_of idx (strip u) = Some e \<and> c \<in> set (concept_ids e))"
  proof (intro ballI, clarify)
    fix c ts u assume "(c, ts) \<in> set synonyms" "u \<in> set ts" "strip u \<noteq> []"
    then show "\<exists>e. map_of idx (strip u) = Some e \<and> c \<in> set (concept_ids e)"
      unfolding idx by (rule index_member)
  qed
  show b: "\<forall>t e c. map_of idx t = Some e \<and> c \<in> set (concept_ids e) \<longrightarrow>
        (\<exists>ts u. (c, ts) \<in> set synonyms \<and> u \<in> set ts \<and> strip u = t)"
  proof (intro allI impI)
    fix t e c assume "map_of idx t = Some e \<and> c \<in> set (concept_ids e)"
    then have "map_of (build_inverted_index synonyms) t = Some e" "c \<in> set (concept_ids e)"
      by (simp_all add: idx)
    then show "\<exists>ts u. (c, ts) \<in> set synonyms \<and> u \<in> set ts \<and> strip u = t"
      by (rule index_listed)
  qed
  show "\<forall>(t, e) \<in> set idx.
        map_of idx t = Some e \<and> sorted (concept_ids e) \<and> distinct (concept_ids e) \<and>
        is_ambiguous e = (length (concept_ids e) > 1)"
  proof (intro ballI, clarify)
    fix t e assume "(t, e) \<in> set idx"
    then have m: "map_of idx t = Some e" unfolding idx by (rule index_entries)
    then have "e = make_entry (ids_of synonyms t)" unfolding idx by (rule index_entry)
    then show "map_of idx t = Some e \<and> sorted (concept_ids e) \<and> distinct (concept_ids e) \<and>
        is_ambiguous e = (length (concept_ids e) > 1)"
      using m make_entry_ids(2-4) by simp
  qed
  assume wf: "\<forall>(c, ts) \<in> set synonyms. \<forall>u \<in> set ts. u \<noteq> [] \<and> strip u = u"
  show "\<forall>(c, ts) \<in> set synonyms. \<forall>u \<in> set ts.
           \<exists>e. map_of idx u = Some e \<and> c \<in> set (concept_ids e)"
  proof (intro ballI, clarify)
    fix c ts u assume m: "(c, ts) \<in> set synonyms" "u \<in> set ts"
    then have "u \<noteq> []" "strip u = u" using wf by auto
    then show "\<exists>e. map_of idx u = Some e \<and> c \<in> set (concept_ids e)"
      using index_member [OF m, of ] unfolding idx by simp
  qed
  show "\<forall>t e c. map_of idx t = Some e \<and> c \<in> set (concept_ids e) \<longrightarrow>
           (\<exists>ts. (c, ts) \<in> set synonyms \<and> t \<in> set ts)"
  proof (intro allI impI)
    fix t e c assume "map_of idx t = Some e \<and> c \<in> set (concept_ids e)"
    then obtain ts u where m: "(c, ts) \<in> set synonyms" "u \<in> set ts" "strip u = t"
      using b by blast
    then have "strip u = u" using wf by auto
    then show "\<exists>ts. (c, ts) \<in> set synonyms \<and> t \<in> set ts" using m by auto
  qed
qed

lemma ex_index_ab:
  "build_inverted_index [(''C0001'', ['' a'', ''b'']), (''C0002'', [''a''])] =
     [(''a'', \<lparr>concept_ids = [''C0001'', ''C0002''], is_ambiguous = True\<rparr>),
      (''b'', \<lparr>concept_ids = [''C0001''], is_ambiguous = False\<rparr>)]"
  "strip '' a'' = ''a''"
  by code_simp+

theorem index_round_trip_witness:
  "build_inverted_index [(''C0001'', ['' a'', ''b'']), (''C0002'', [''a''])] =
     [(''a'', \<lparr>concept_ids = [''C0001'', ''C0002''], is_ambiguous = True\<rparr>),
      (''b'', \<lparr>concept_ids = [''C0001''], is_ambiguous = False\<rparr>)] \<and>
   strip '' a'' = ''a'' \<and>
   (\<exists>e. map_of (build_inverted_index [(''C0001'', ['' a'', ''b'']), (''C0002'', [''a''])]) ''a'' = Some e \<and>
        ''C0001'' \<in> set (concept_ids e)) \<and>
   (\<exists>ts u. (''C0002'', ts) \<in> set [(''C0001'', ['' a'', ''b'']), (''C0002'', [''a''])] \<and>
        u \<in> set ts \<and> strip u = ''a'') \<and>
   sorted [''C0001'', ''C0002''] \<and> True = (length [''C0001'', ''C0002''] > 1)"
proof -
  let ?syn = "[(''C0001'', ['' a'', ''b'']), (''C0002'', [''a''])]"
  note t = index_round_trip [OF refl, of ?syn]
  have m: "(''C0001'', ['' a'', ''b'']) \<in> set ?syn" "'' a'' \<in> set ['' a'', ''b'']"
    "strip '' a'' \<noteq> []" by (simp_all add: ex_index_ab(2))
  have "\<forall>u \<in> set ['' a'', ''b'']. strip u \<noteq> [] \<longrightarrow>
      (\<exists>e. map_of (build_inverted_index ?syn) (strip u) = Some e \<and> ''C0001'' \<in> set (concept_ids e))"
    using bspec [OF conjunct1 [OF t] m(1)] by (simp only: prod.case)
  then have "\<exists>e. map_of (build_inverted_index ?syn) (strip '' a'') = Some e \<and>
      ''C0001'' \<in> set (concept_ids e)"
    using m(2,3) by blast
  then have 1: "\<exists>e. map_of (build_inverted_index ?syn) ''a'' = Some e \<and>
      ''C0001'' \<in> set (concept_ids e)"
    by (simp only: ex_index_ab(2))
  have l: "map_of (build_inverted_index ?syn) ''a'' =
      Some \<lparr>concept_ids = [''C0001'', ''C0002''], is_ambiguous = True\<rparr> \<and>
    ''C0002'' \<in> set (concept_ids \<lparr>concept_ids = [''C0001'', ''C0002''], is_ambiguous = True\<rparr>)"
    by (simp add: ex_index_ab(1))
  have 2: "\<exists>ts u. (''C0002'', ts) \<in> set ?syn \<and> u \<in> set ts \<and> strip u = ''a''"
    using conjunct1 [OF conjunct2 [OF t], rule_format, OF l] .
  have e: "(''a'', \<lparr>concept_ids = [''C0001'', ''C0002''], is_ambiguous = True\<rparr>) \<in>
      set (build_inverted_index ?syn)" by (simp add: ex_index_ab(1))
  have 3: "sorted [''C0001'', ''C0002''] \<and> True = (length [''C0001'', ''C0002''] > 1)"
    using bspec [OF conjunct2 [OF conjunct2 [OF conjunct2 [OF t]]] e] by simp
  show ?thesis using 1 2 3 ex_index_ab by blast
qed

section \<open>Keys of the inverted index\<close>

text \<open>
  C10. The builder normalizes the members itself. Every key of the index is a non-empty
  string equal to its stripped form, whatever the members of the Concept Map are; the
  keys are exactly the non-empty stripped forms of the members. A member is recorded
  under its stripped form, together with every other member that has that stripped form;
  a member that is empty once stripped adds nothing, and neither the empty string nor a
  member with surrounding whitespace is a key.
\<close>

theorem index_keys_stripped:
  assumes idx: "idx = build_inverted_index synonyms"
  shows
    "(\<forall>k \<in> set (map fst idx). k \<noteq> [] \<and> strip k = k) \<and>
     set (map fst idx) =
       {strip u | c ts u. (c, ts) \<in> set synonyms \<and> u \<in> set ts \<and> strip u \<noteq> []} \<and>
     distinct (map fst idx) \<and>
     map_of idx [] = None \<and>
     (\<forall>(c, ts) \<in> set synonyms. \<forall>u \<in> set ts. strip u \<noteq> u \<longrightarrow> map_of idx u = None) \<and>
     (\<forall>(c, ts) \<in> set synonyms. \<forall>u \<in> set ts. strip u \<noteq> [] \<longrightarrow>
        (\<exists>e. map_of idx (strip u) = Some e \<and> c \<in> set (concept_ids e)))"
proof (intro conjI)
  have keys: "set (map fst idx) = (\<Union>(c, ts) \<in> set synonyms. strip ` set ts) - {[]}"
    unfolding idx using keys_inverted_index [of synonyms] by blast
  show stripped: "\<forall>k \<in> set (map fst idx). k \<noteq> [] \<and> strip k = k"
  proof
    fix k assume "k \<in> set (map fst idx)"
    then have "k \<in> (\<Union>(c, ts) \<in> set synonyms. strip ` set ts) - {[]}" by (simp only: keys)
    then obtain u where "k = strip u" "k \<noteq> []" by auto
    then show "k \<noteq> [] \<and> strip k = k" by (simp add: strip_idem)
  qed
  show "set (map fst idx) =
       {strip u | c ts u. (c, ts) \<in> set synonyms \<and> u \<in> set ts \<and> strip u \<noteq> []}"
    by (simp only: keys index_keys_set)
  show "distinct (map fst idx)"
    unfolding idx using keys_inverted_index [of synonyms] by blast
  show "map_of idx [] = None"
    by (simp add: idx map_of_inverted_index)
  show "\<forall>(c, ts) \<in> set synonyms. \<forall>u \<in> set ts. strip u \<noteq> u \<longrightarrow> map_of idx u = None"
  proof (intro ballI, clarify)
    fix c ts u assume ne: "strip u \<noteq> u"
    have "u \<notin> set (map fst idx)" using stripped ne by blast
    then have "u \<notin> fst ` set idx" by simp
    then show "map_of idx u = None" by (simp only: map_of_eq_None_iff not_False_eq_True)
  qed
  show "\<forall>(c, ts) \<in> set synonyms. \<forall>u \<in> set ts. strip u \<noteq> [] \<longrightarrow>
        (\<exists>e. map_of idx (strip u) = Some e \<and> c \<in> set (concept_ids e))"
  proof (intro ballI, clarify)
    fix c ts u assume "(c, ts) \<in> set synonyms" "u \<in> set ts" "strip u \<noteq> []"
    then show "\<exists>e. map_of idx (strip u) = Some e \<and> c \<in> set (concept_ids e)"
      unfolding idx by (rule index_member)
  qed
qed

lemma ex_index_padded:
  "build_inverted_index [(''C0001'', ['' a'', [], ''a'']), (''C0002'', [''a '', ''  ''])] =
     [(''a'', \<lparr>concept_ids = [''C0001'', ''C0002''], is_ambiguous = True\<rparr>)]"
  "strip ''a'' = ''a''" "strip ''a '' = ''a''" "strip ''a '' \<noteq> ''a ''"
  by code_simp+

theorem index_keys_stripped_witness:
  "build_inverted_index [(''C0001'', ['' a'', [], ''a'']), (''C0002'', [''a '', ''  ''])] =
     [(''a'', \<lparr>concept_ids = [''C0001'', ''C0002''], is_ambiguous = True\<rparr>)] \<and>
   ''a'' \<noteq> [] \<and> strip ''a'' = ''a'' \<and> strip ''a '' \<noteq> ''a '' \<and>
   map_of (build_inverted_index [(''C0001'', ['' a'', [], ''a'']), (''C0002'', [''a '', ''  ''])])
     ''a '' = None \<and>
   map_of (build_inverted_index [(''C0001'', ['' a'', [], ''a'']), (''C0002'', [''a '', ''  ''])])
     [] = None"
proof -
  let ?syn = "[(''C0001'', ['' a'', [], ''a'']), (''C0002'', [''a '', ''  ''])]"
  note t = index_keys_stripped [OF refl, of ?syn]
  have k: "''a'' \<in> set (map fst (build_inverted_index ?syn))" by (simp add: ex_index_padded(1))
  have 1: "''a'' \<noteq> [] \<and> strip ''a'' = ''a''"
    using bspec [OF conjunct1 [OF t] k] .
  have m: "(''C0002'', [''a '', ''  '']) \<in> set ?syn" "''a '' \<in> set [''a '', ''  '']" by simp_all
  have "\<forall>u \<in> set [''a '', ''  '']. strip u \<noteq> u \<longrightarrow> map_of (build_inverted_index ?syn) u = None"
    using bspec [OF conjunct1 [OF conjunct2 [OF conjunct2 [OF conjunct2 [OF conjunct2 [OF t]]]]] m(1)]
    by (simp only: prod.case)
  then have 2: "map_of (build_inverted_index ?syn) ''a '' = None"
    using m(2) ex_index_padded(4) by blast
  have 3: "map_of (build_inverted_index ?syn) [] = None"
    using conjunct1 [OF conjunct2 [OF conjunct2 [OF conjunct2 [OF t]]]] .
  show ?thesis using 1 2 3 ex_index_padded by blast
qed

section \<open>Query expansion\<close>

lemma fold_collect:
  "fold (\<lambda>cid all_synonyms.
           case synonyms cid of Some ts \<Rightarrow> all_synonyms \<union> set ts | None \<Rightarrow> all_synonyms)
     cids acc = acc \<union> union_of synonyms cids"
  by (induction cids arbitrary: acc) (auto simp: union_of_def split: option.splits)

lemma collect_synonyms_eq: "collect_synonyms synonyms cids = union_of synonyms cids"
  by (simp add: collect_synonyms_def fold_collect)

lemma finite_union_of: "finite (union_of synonyms cids)"
  by (auto simp: union_of_def split: option.splits)

lemma union_of_iff:
  "t \<in> union_of synonyms cids \<longleftrightarrow> (\<exists>cid ts. cid \<in> set cids \<and> synonyms cid = Some ts \<and> t \<in> set ts)"
  by (auto simp: union_of_def split: option.splits)

lemma union_of_cong: "set cids = set cids' \<Longrightarrow> union_of synonyms cids = union_of synonyms cids'"
  by (simp add: union_of_def)

lemma expand_term_found:
  assumes "inverted_index term = Some e"
  shows "expand_term synonyms inverted_index term =
     \<lparr>original = term, found = True, ambiguous = is_ambiguous e, ids = concept_ids e,
      expanded_terms = union_of synonyms (concept_ids e),
      query = (if union_of synonyms (concept_ids e) \<noteq> {}
               then ''('' @ join '' OR ''
                      (map quote_term (sorted_list_of_set (union_of synonyms (concept_ids e)))) @ '')''
               else term)\<rparr>"
proof -
  have "card (union_of synonyms (concept_ids e)) > 0 \<longleftrightarrow> union_of synonyms (concept_ids e) \<noteq> {}"
    using finite_union_of [of synonyms "concept_ids e"] by (simp add: card_gt_0_iff)
  then show ?thesis using assms by (simp add: expand_term_def collect_synonyms_eq Let_def)
qed

text \<open>
  C6. A term that is not a key of the index is returned as it is: not found, not
  ambiguous, without identifiers, the term alone as expansion and the term between double
  quotes as query. The function is total, so nothing is raised. \<open>expand_query\<close> does
  the same with the stripped query.
\<close>

theorem expand_not_found:
  "(inverted_index term = None \<longrightarrow>
      expand_term synonyms inverted_index term =
        \<lparr>original = term, found = False, ambiguous = False, ids = [],
         expanded_terms = {term}, query = dquote # term @ [dquote]\<rparr>) \<and>
   (inverted_index (strip query_text) = None \<longrightarrow>
      expand_query synonyms inverted_index query_text =
        \<lparr>original = strip query_text, found = False, ambiguous = False, ids = [],
         expanded_terms = {strip query_text}, query = dquote # strip query_text @ [dquote]\<rparr>)"
  by (simp add: expand_term_def expand_query_def)

lemma ex_strip_XYZ: "strip '' XYZ123 '' = ''XYZ123''"
  by code_simp

theorem expand_not_found_witness:
  "[''CIL'' \<mapsto> \<lparr>concept_ids = [''C0001''], is_ambiguous = False\<rparr>] ''XYZ123'' = None \<and>
   found (expand_term [''C0001'' \<mapsto> [''CIL'', ''Cilindro'']]
     [''CIL'' \<mapsto> \<lparr>concept_ids = [''C0001''], is_ambiguous = False\<rparr>] ''XYZ123'') = False \<and>
   expanded_terms (expand_term [''C0001'' \<mapsto> [''CIL'', ''Cilindro'']]
     [''CIL'' \<mapsto> \<lparr>concept_ids = [''C0001''], is_ambiguous = False\<rparr>] ''XYZ123'') = {''XYZ123''} \<and>
   query (expand_term [''C0001'' \<mapsto> [''CIL'', ''Cilindro'']]
     [''CIL'' \<mapsto> \<lparr>concept_ids = [''C0001''], is_ambiguous = False\<rparr>] ''XYZ123'') =
     CHR 0x22 # ''XYZ123'' @ [CHR 0x22] \<and>
   query (expand_query [''C0001'' \<mapsto> [''CIL'', ''Cilindro'']]
     [''CIL'' \<mapsto> \<lparr>concept_ids = [''C0001''], is_ambiguous = False\<rparr>] '' XYZ123 '') =
     CHR 0x22 # ''XYZ123'' @ [CHR 0x22]"
proof -
  let ?syn = "[''C0001'' \<mapsto> [''CIL'', ''Cilindro'']]"
  let ?idx = "[''CIL'' \<mapsto> \<lparr>concept_ids = [''C0001''], is_ambiguous = False\<rparr>]"
  have n: "?idx ''XYZ123'' = None" "?idx (strip '' XYZ123 '') = None"
    by (simp_all add: ex_strip_XYZ)
  note t = expand_not_found [of ?idx "''XYZ123''" ?syn "'' XYZ123 ''"]
  have a: "expand_term ?syn ?idx ''XYZ123'' =
        \<lparr>original = ''XYZ123'', found = False, ambiguous = False, ids = [],
         expanded_terms = {''XYZ123''}, query = dquote # ''XYZ123'' @ [dquote]\<rparr>"
    using conjunct1 [OF t, rule_format, OF n(1)] .
  have b: "expand_query ?syn ?idx '' XYZ123 '' =
        \<lparr>original = strip '' XYZ123 '', found = False, ambiguous = False, ids = [],
         expanded_terms = {strip '' XYZ123 ''}, query = dquote # strip '' XYZ123 '' @ [dquote]\<rparr>"
    using conjunct2 [OF t, rule_format, OF n(2)] .
  show ?thesis using n(1) by (simp add: a b ex_strip_XYZ dquote_def)
qed

text \<open>
  C7, as stated, fails: the code wraps a term in double quotes when it contains the space
  character, not any whitespace. A member with a tabulator inside goes into the query
  bare.
\<close>

theorem found_query_tab_unquoted:
  "is_space (CHR 0x09) \<and>
   CHR 0x09 \<in> set [CHR ''a'', CHR 0x09, CHR ''b''] \<and>
   query (expand_term [''C0001'' \<mapsto> [[CHR ''a'', CHR 0x09, CHR ''b'']]]
     [[CHR ''a'', CHR 0x09, CHR ''b''] \<mapsto> \<lparr>concept_ids = [''C0001''], is_ambiguous = False\<rparr>]
     [CHR ''a'', CHR 0x09, CHR ''b'']) =
   ''('' @ [CHR ''a'', CHR 0x09, CHR ''b''] @ '')''"
proof -
  have s: "is_space (CHR 0x09)" by (simp add: is_space_def)
  have m: "CHR 0x09 \<in> set [CHR ''a'', CHR 0x09, CHR ''b'']" by simp
  have q: "query (expand_term [''C0001'' \<mapsto> [[CHR ''a'', CHR 0x09, CHR ''b'']]]
     [[CHR ''a'', CHR 0x09, CHR ''b''] \<mapsto> \<lparr>concept_ids = [''C0001''], is_ambiguous = False\<rparr>]
     [CHR ''a'', CHR 0x09, CHR ''b'']) =
   ''('' @ [CHR ''a'', CHR 0x09, CHR ''b''] @ '')''"
  proof -
    have i: "[[CHR ''a'', CHR 0x09, CHR ''b''] \<mapsto> \<lparr>concept_ids = [''C0001''], is_ambiguous = False\<rparr>]
        [CHR ''a'', CHR 0x09, CHR ''b''] = Some \<lparr>concept_ids = [''C0001''], is_ambiguous = False\<rparr>"
      by simp
    have u: "union_of [''C0001'' \<mapsto> [[CHR ''a'', CHR 0x09, CHR ''b'']]] [''C0001''] =
        {[CHR ''a'', CHR 0x09, CHR ''b'']}"
      by (simp add: union_of_def)
    have t: "quote_term [CHR ''a'', CHR 0x09, CHR ''b''] = [CHR ''a'', CHR 0x09, CHR ''b'']"
      by (simp add: quote_term_def)
    note f = expand_term_found
      [of "[[CHR ''a'', CHR 0x09, CHR ''b''] \<mapsto> \<lparr>concept_ids = [''C0001''], is_ambiguous = False\<rparr>]"
        "[CHR ''a'', CHR 0x09, CHR ''b'']" "\<lparr>concept_ids = [''C0001''], is_ambiguous = False\<rparr>"
        "[''C0001'' \<mapsto> [[CHR ''a'', CHR 0x09, CHR ''b'']]]", OF i]
    show ?thesis by (simp add: f u t)
  qed
  show ?thesis using s m q by blast
qed

text \<open>
  C7, amended. When the term is a key of the index and the union \<open>U\<close> of the member
  lists of its concepts is not empty, the expansion is \<open>U\<close> and the query is: the members
  of \<open>U\<close> in increasing order (the order of \<^typ>\<open>string\<close>, which compares code points),
  each once, a member between double quotes exactly when it contains the space character,
  joined by \<open>OR\<close> between spaces, the whole between parentheses. \<open>U\<close> depends on the set of
  the identifiers only, so two entries with the same identifiers in another order give the
  same query.
\<close>

theorem found_query:
  assumes e: "inverted_index term = Some e"
    and U: "U = union_of synonyms (concept_ids e)"
    and ne: "U \<noteq> {}"
  shows "expanded_terms (expand_term synonyms inverted_index term) = U \<and>
     (\<forall>t. t \<in> U \<longleftrightarrow>
        (\<exists>cid ts. cid \<in> set (concept_ids e) \<and> synonyms cid = Some ts \<and> t \<in> set ts)) \<and>
     (\<exists>ts. sorted ts \<and> distinct ts \<and> set ts = U \<and>
        query (expand_term synonyms inverted_index term) =
          ''('' @ join '' OR ''
             (map (\<lambda>t. if CHR '' '' \<in> set t then dquote # t @ [dquote] else t) ts) @ '')'') \<and>
     (\<forall>e'. set (concept_ids e') = set (concept_ids e) \<longrightarrow>
        query (expand_term synonyms (inverted_index(term \<mapsto> e')) term) =
        query (expand_term synonyms inverted_index term))"
proof (intro conjI allI impI)
  note f = expand_term_found [of inverted_index "term" e synonyms, OF e]
  show "expanded_terms (expand_term synonyms inverted_index term) = U"
    by (simp add: f U)
  show "t \<in> U \<longleftrightarrow>
        (\<exists>cid ts. cid \<in> set (concept_ids e) \<and> synonyms cid = Some ts \<and> t \<in> set ts)" for t
    by (simp only: U union_of_iff)
  have fin: "finite U" unfolding U by (rule finite_union_of)
  have q: "query (expand_term synonyms inverted_index term) =
      ''('' @ join '' OR '' (map quote_term (sorted_list_of_set U)) @ '')''"
    using ne by (simp add: f U)
  show "\<exists>ts. sorted ts \<and> distinct ts \<and> set ts = U \<and>
        query (expand_term synonyms inverted_index term) =
          ''('' @ join '' OR ''
             (map (\<lambda>t. if CHR '' '' \<in> set t then dquote # t @ [dquote] else t) ts) @ '')''"
  proof (intro exI conjI)
    show "sorted (sorted_list_of_set U)" by simp
    show "distinct (sorted_list_of_set U)" by simp
    show "set (sorted_list_of_set U) = U" using fin by simp
    show "query (expand_term synonyms inverted_index term) =
          ''('' @ join '' OR ''
             (map (\<lambda>t. if CHR '' '' \<in> set t then dquote # t @ [dquote] else t)
                (sorted_list_of_set U)) @ '')''"
      unfolding q by (simp only: quote_term_def [abs_def])
  qed
  fix e' :: index_entry
  assume s: "set (concept_ids e') = set (concept_ids e)"
  have e': "(inverted_index(term \<mapsto> e')) term = Some e'" by simp
  have "union_of synonyms (concept_ids e') = U" unfolding U using s by (rule union_of_cong)
  then show "query (expand_term synonyms (inverted_index(term \<mapsto> e')) term) =
        query (expand_term synonyms inverted_index term)"
    using ne
    by (simp add: expand_term_found [of "inverted_index(term \<mapsto> e')" "term" e' synonyms, OF e'] q)
qed

lemma ex_union_NM:
  "union_of [''C0001'' \<mapsto> [''NM'', ''No mejora''], ''C0002'' \<mapsto> [''Nistagmus manifiesto'', ''NM'']]
     [''C0002'', ''C0001''] = {''NM'', ''No mejora'', ''Nistagmus manifiesto''}"
  by (simp add: union_of_def insert_commute)

lemma ex_sorted_NM:
  "sorted [''NM'', ''Nistagmus manifiesto'', ''No mejora'']"
  "distinct [''NM'', ''Nistagmus manifiesto'', ''No mejora'']"
  "set [''NM'', ''Nistagmus manifiesto'', ''No mejora''] = {''NM'', ''No mejora'', ''Nistagmus manifiesto''}"
  by code_simp+

theorem found_query_witness:
  "[''NM'' \<mapsto> \<lparr>concept_ids = [''C0002'', ''C0001''], is_ambiguous = True\<rparr>] ''NM'' =
     Some \<lparr>concept_ids = [''C0002'', ''C0001''], is_ambiguous = True\<rparr> \<and>
   {''NM'', ''No mejora'', ''Nistagmus manifiesto''} \<noteq> ({} :: string set) \<and>
   query (expand_term
     [''C0001'' \<mapsto> [''NM'', ''No mejora''], ''C0002'' \<mapsto> [''Nistagmus manifiesto'', ''NM'']]
     [''NM'' \<mapsto> \<lparr>concept_ids = [''C0002'', ''C0001''], is_ambiguous = True\<rparr>] ''NM'') =
   ''(NM OR '' @ CHR 0x22 # ''Nistagmus manifiesto'' @ CHR 0x22 # '' OR '' @
     CHR 0x22 # ''No mejora'' @ CHR 0x22 # '')''"
proof -
  let ?syn = "[''C0001'' \<mapsto> [''NM'', ''No mejora''], ''C0002'' \<mapsto> [''Nistagmus manifiesto'', ''NM'']]"
  let ?e = "\<lparr>concept_ids = [''C0002'', ''C0001''], is_ambiguous = True\<rparr>"
  let ?idx = "[''NM'' \<mapsto> ?e]"
  let ?U = "{''NM'', ''No mejora'', ''Nistagmus manifiesto''}"
  have i: "?idx ''NM'' = Some ?e" by simp
  have u: "?U = union_of ?syn (concept_ids ?e)" by (simp add: ex_union_NM)
  have n: "?U \<noteq> {}" by simp
  note t = found_query [of ?idx "''NM''" ?e ?U ?syn, OF i u n]
  have "\<exists>ts. sorted ts \<and> distinct ts \<and> set ts = ?U \<and>
      query (expand_term ?syn ?idx ''NM'') =
      ''('' @ join '' OR ''
         (map (\<lambda>t. if CHR '' '' \<in> set t then dquote # t @ [dquote] else t) ts) @ '')''"
    using conjunct1 [OF conjunct2 [OF conjunct2 [OF t]]] .
  then obtain ts where all: "sorted ts \<and> distinct ts \<and> set ts = ?U \<and>
      query (expand_term ?syn ?idx ''NM'') =
      ''('' @ join '' OR ''
         (map (\<lambda>t. if CHR '' '' \<in> set t then dquote # t @ [dquote] else t) ts) @ '')''" ..
  then have ts: "sorted ts" "distinct ts" "set ts = ?U"
    and q: "query (expand_term ?syn ?idx ''NM'') =
      ''('' @ join '' OR ''
         (map (\<lambda>t. if CHR '' '' \<in> set t then dquote # t @ [dquote] else t) ts) @ '')''"
    by (rule conjunct1, rule conjunct2 [THEN conjunct1],
        rule conjunct2 [THEN conjunct2, THEN conjunct1],
        rule conjunct2 [THEN conjunct2, THEN conjunct2])
  have "set ts = set [''NM'', ''Nistagmus manifiesto'', ''No mejora'']"
    using ts(3) ex_sorted_NM(3) by (rule trans_sym)
  then have "ts = [''NM'', ''Nistagmus manifiesto'', ''No mejora'']"
    using ts(1,2) ex_sorted_NM(1,2) by (intro sorted_distinct_set_unique)
  then have q': "query (expand_term ?syn ?idx ''NM'') =
      ''('' @ join '' OR ''
         (map (\<lambda>t. if CHR '' '' \<in> set t then dquote # t @ [dquote] else t)
            [''NM'', ''Nistagmus manifiesto'', ''No mejora'']) @ '')''"
    using q by (simp only:)
  have j: "''('' @ join '' OR ''
         (map (\<lambda>t. if CHR '' '' \<in> set t then dquote # t @ [dquote] else t)
            [''NM'', ''Nistagmus manifiesto'', ''No mejora'']) @ '')'' =
     ''(NM OR '' @ CHR 0x22 # ''Nistagmus manifiesto'' @ CHR 0x22 # '' OR '' @
     CHR 0x22 # ''No mejora'' @ CHR 0x22 # '')''"
    by (simp add: dquote_def)
  show ?thesis using i n q' j by (simp only: simp_thms)
qed

text \<open>
  C8, as stated, fails: when the term is found and the union is empty, the query keeps
  its initial value, the term itself; only the branch of a term that is not found puts
  it between double quotes.
\<close>

theorem empty_union_query_unquoted:
  "found (expand_term Map.empty
     [''X'' \<mapsto> \<lparr>concept_ids = [''C9999''], is_ambiguous = False\<rparr>] ''X'') = True \<and>
   expanded_terms (expand_term Map.empty
     [''X'' \<mapsto> \<lparr>concept_ids = [''C9999''], is_ambiguous = False\<rparr>] ''X'') = {} \<and>
   query (expand_term Map.empty
     [''X'' \<mapsto> \<lparr>concept_ids = [''C9999''], is_ambiguous = False\<rparr>] ''X'') = ''X'' \<and>
   ''X'' \<noteq> dquote # ''X'' @ [dquote]"
proof -
  have i: "[''X'' \<mapsto> \<lparr>concept_ids = [''C9999''], is_ambiguous = False\<rparr>] ''X'' =
      Some \<lparr>concept_ids = [''C9999''], is_ambiguous = False\<rparr>" by simp
  have u: "union_of Map.empty [''C9999''] = {}" by (simp add: union_of_def)
  note f = expand_term_found
    [of "[''X'' \<mapsto> \<lparr>concept_ids = [''C9999''], is_ambiguous = False\<rparr>]" "''X''"
      "\<lparr>concept_ids = [''C9999''], is_ambiguous = False\<rparr>" Map.empty, OF i]
  show ?thesis by (simp add: f u)
qed

text \<open>
  C8, amended. When the term is a key of the index and the union of the member lists of
  its concepts is empty, the result is found, its expansion is empty and its query is the
  term as it is, without quotes.
\<close>

theorem empty_union_query:
  assumes e: "inverted_index term = Some e"
    and U: "union_of synonyms (concept_ids e) = {}"
  shows "found (expand_term synonyms inverted_index term) = True \<and>
     ids (expand_term synonyms inverted_index term) = concept_ids e \<and>
     expanded_terms (expand_term synonyms inverted_index term) = {} \<and>
     query (expand_term synonyms inverted_index term) = term \<and>
     (\<forall>cid \<in> set (concept_ids e). synonyms cid = None \<or> synonyms cid = Some [])"
proof -
  note f = expand_term_found [of inverted_index "term" e synonyms, OF e]
  have "synonyms cid = None \<or> synonyms cid = Some []" if "cid \<in> set (concept_ids e)" for cid
  proof (cases "synonyms cid")
    case None then show ?thesis by simp
  next
    case (Some ts)
    have "t \<notin> set ts" for t
      using U that Some union_of_iff [of t synonyms "concept_ids e"] by blast
    then have "ts = []" by (cases ts) auto
    then show ?thesis using Some by simp
  qed
  then show ?thesis by (simp add: f U)
qed

theorem empty_union_query_witness:
  "[''X'' \<mapsto> \<lparr>concept_ids = [''C9999'', ''C0001''], is_ambiguous = True\<rparr>] ''X'' =
      Some \<lparr>concept_ids = [''C9999'', ''C0001''], is_ambiguous = True\<rparr> \<and>
   union_of [''C0001'' \<mapsto> []] [''C9999'', ''C0001''] = {} \<and>
   query (expand_term [''C0001'' \<mapsto> []]
     [''X'' \<mapsto> \<lparr>concept_ids = [''C9999'', ''C0001''], is_ambiguous = True\<rparr>] ''X'') = ''X'' \<and>
   found (expand_term [''C0001'' \<mapsto> []]
     [''X'' \<mapsto> \<lparr>concept_ids = [''C9999'', ''C0001''], is_ambiguous = True\<rparr>] ''X'') = True"
proof -
  let ?e = "\<lparr>concept_ids = [''C9999'', ''C0001''], is_ambiguous = True\<rparr>"
  have i: "[''X'' \<mapsto> ?e] ''X'' = Some ?e" by simp
  have u: "union_of [''C0001'' \<mapsto> []] [''C9999'', ''C0001''] = {}" by (simp add: union_of_def)
  have u': "union_of [''C0001'' \<mapsto> []] (concept_ids ?e) = {}" by (simp add: u)
  note t = empty_union_query [of "[''X'' \<mapsto> ?e]" "''X''" ?e "[''C0001'' \<mapsto> []]", OF i u']
  have "query (expand_term [''C0001'' \<mapsto> []] [''X'' \<mapsto> ?e] ''X'') = ''X''"
    using conjunct1 [OF conjunct2 [OF conjunct2 [OF conjunct2 [OF t]]]] .
  moreover have "found (expand_term [''C0001'' \<mapsto> []] [''X'' \<mapsto> ?e] ''X'') = True"
    using conjunct1 [OF t] .
  ultimately show ?thesis using i u by (simp only: simp_thms)
qed

end
